theory Spec2Isabelle
  imports Complex_Main
begin

section \<open>Numbers and arrays\<close>

text \<open>
  The energy engine of \<^verbatim>\<open>hotspice/energies.py\<close> computes with NumPy arrays of IEEE
  doubles. Two idealisations are made throughout, and only these two:
  \<^item> finite doubles are real numbers and arithmetic on them is exact (no rounding, no
    overflow, no signed zero), so "equal within floating tolerance" is rendered as equality;
  \<^item> the special values \<open>inf\<close>, \<open>-inf\<close> and \<open>nan\<close> are kept, with the IEEE rules
    for sums, products, quotients and powers, because the kernel construction assigns
    \<open>inf\<close> on purpose (\<^verbatim>\<open>rr_sq[0,0] = xp.inf\<close>) and relies on \<open>inf ** -0.5 = 0\<close>.

  Quantities that the host lattice hands in (spin signs, moments, coordinates,
  orientations) and the scalar parameters are finite and have type \<open>real\<close>; every array
  the engine computes from a kernel has entries of type \<open>xreal\<close>.
\<close>

datatype xreal = Fin real | PInf | NInf | NaN

instantiation xreal :: comm_monoid_add
begin

definition zero_xreal :: xreal where
  "zero_xreal = Fin 0"

fun plus_xreal :: "xreal \<Rightarrow> xreal \<Rightarrow> xreal" where
  "plus_xreal (Fin a) (Fin b) = Fin (a + b)"
| "plus_xreal NaN _ = NaN"
| "plus_xreal _ NaN = NaN"
| "plus_xreal PInf NInf = NaN"
| "plus_xreal NInf PInf = NaN"
| "plus_xreal PInf _ = PInf"
| "plus_xreal _ PInf = PInf"
| "plus_xreal NInf _ = NInf"
| "plus_xreal _ NInf = NInf"

instance
proof (standard, goal_cases)
  case (1 u v w)
  show ?case by (cases u; cases v; cases w) simp_all
next
  case (2 u v)
  show ?case by (cases u; cases v) simp_all
next
  case (3 u)
  show ?case by (cases u) (simp_all add: zero_xreal_def)
qed

end

instantiation xreal :: "{one, uminus, minus, times, inverse}"
begin

definition one_xreal :: xreal where
  "one_xreal = Fin 1"

fun uminus_xreal :: "xreal \<Rightarrow> xreal" where
  "uminus_xreal (Fin a) = Fin (- a)"
| "uminus_xreal PInf = NInf"
| "uminus_xreal NInf = PInf"
| "uminus_xreal NaN = NaN"

definition minus_xreal :: "xreal \<Rightarrow> xreal \<Rightarrow> xreal" where
  "minus_xreal a b = a + (- b)"

text \<open>The sign of an infinite product; \<open>0 * inf\<close> is \<open>nan\<close>.\<close>

fun times_xreal :: "xreal \<Rightarrow> xreal \<Rightarrow> xreal" where
  "times_xreal (Fin a) (Fin b) = Fin (a * b)"
| "times_xreal NaN _ = NaN"
| "times_xreal _ NaN = NaN"
| "times_xreal (Fin a) PInf = (if a = 0 then NaN else if 0 < a then PInf else NInf)"
| "times_xreal (Fin a) NInf = (if a = 0 then NaN else if 0 < a then NInf else PInf)"
| "times_xreal PInf (Fin b) = (if b = 0 then NaN else if 0 < b then PInf else NInf)"
| "times_xreal NInf (Fin b) = (if b = 0 then NaN else if 0 < b then NInf else PInf)"
| "times_xreal PInf PInf = PInf"
| "times_xreal NInf NInf = PInf"
| "times_xreal PInf NInf = NInf"
| "times_xreal NInf PInf = NInf"

text \<open>Array division as NumPy does it: a finite nonzero value over zero is infinite.\<close>

fun divide_xreal :: "xreal \<Rightarrow> xreal \<Rightarrow> xreal" where
  "divide_xreal (Fin a) (Fin b) =
     (if b = 0 then (if a = 0 then NaN else if 0 < a then PInf else NInf) else Fin (a / b))"
| "divide_xreal NaN _ = NaN"
| "divide_xreal _ NaN = NaN"
| "divide_xreal (Fin a) _ = Fin 0"
| "divide_xreal PInf (Fin b) = (if 0 \<le> b then PInf else NInf)"
| "divide_xreal NInf (Fin b) = (if 0 \<le> b then NInf else PInf)"
| "divide_xreal _ _ = NaN"

fun inverse_xreal :: "xreal \<Rightarrow> xreal" where
  "inverse_xreal (Fin a) = (if a = 0 then PInf else Fin (1 / a))"
| "inverse_xreal NaN = NaN"
| "inverse_xreal _ = Fin 0"

instance ..

end

text \<open>
  \<open>x ** y\<close> for an array \<open>x\<close> and a finite exponent \<open>y\<close>, by the rules of the C function
  \<^verbatim>\<open>pow\<close>: anything to the power zero is one, a positive base gives the real power,
  \<open>0 ** y\<close> is \<open>inf\<close> for negative \<open>y\<close>, \<open>inf ** y\<close> is \<open>0\<close> for negative \<open>y\<close>, and a
  negative base is defined for whole exponents only.
\<close>

definition is_whole :: "real \<Rightarrow> bool" where
  "is_whole y = (of_int \<lfloor>y\<rfloor> = y)"

definition xpow :: "xreal \<Rightarrow> real \<Rightarrow> xreal" where
  "xpow x y =
     (if y = 0 then Fin 1
      else case x of
        NaN \<Rightarrow> NaN
      | PInf \<Rightarrow> (if y < 0 then Fin 0 else PInf)
      | NInf \<Rightarrow> (if y < 0 then Fin 0 else if is_whole y \<and> odd \<lfloor>y\<rfloor> then NInf else PInf)
      | Fin r \<Rightarrow>
          (if 0 < r then Fin (r powr y)
           else if r = 0 then (if y < 0 then PInf else Fin 0)
           else if is_whole y then Fin (power_int r \<lfloor>y\<rfloor>)
           else NaN))"

definition is_finite :: "xreal \<Rightarrow> bool" where
  "is_finite v = (case v of Fin _ \<Rightarrow> True | _ \<Rightarrow> False)"

text \<open>
  A two-dimensional array is its indexing function, row (\<open>y\<close>) first as in NumPy; its shape
  is carried by the lattice. Site indices are natural numbers: the engine receives them
  from array indexing of the lattice, never negative.
\<close>

type_synonym 'a array2 = "nat \<Rightarrow> nat \<Rightarrow> 'a"

datatype error = IndexError | ValueError | ZeroDivisionError

definition in_shape :: "nat \<Rightarrow> nat \<Rightarrow> nat \<times> nat \<Rightarrow> bool" where
  "in_shape h w p = (fst p < h \<and> snd p < w)"

text \<open>\<^verbatim>\<open>xp.sum(A)\<close> over an array of shape \<open>(h, w)\<close>.\<close>

definition xp_sum :: "nat \<Rightarrow> nat \<Rightarrow> xreal array2 \<Rightarrow> xreal" where
  "xp_sum h w A = (\<Sum>y<h. \<Sum>x<w. A y x)"

text \<open>\<^verbatim>\<open>A[ys, xs] *= -1\<close>: every listed entry is negated once, also when listed twice.\<close>

definition negate_at :: "(nat \<times> nat) list \<Rightarrow> xreal array2 \<Rightarrow> xreal array2" where
  "negate_at ps A = (\<lambda>y x. if (y, x) \<in> set ps then A y x * Fin (- 1) else A y x)"


section \<open>The host lattice\<close>

text \<open>
  The \<^verbatim>\<open>Magnets\<close> object (\<^verbatim>\<open>hotspice/core.py\<close>) is an external collaborator of the
  engine: its fields are parameters here. \<^verbatim>\<open>orientation\<close> is the array of shape
  \<open>(ny, nx, 2)\<close>, \<^verbatim>\<open>nearest_neighbors\<close> the stencil that \<^verbatim>\<open>_get_nearest_neighbors()\<close>
  returns, with its shape.
\<close>

record Magnets =
  ny :: nat
  nx :: nat
  in_plane :: bool
  PBC :: bool
  USE_PERP_ENERGY :: bool
  m :: "real array2"
  moment :: "real array2"
  xx :: "real array2"
  yy :: "real array2"
  orientation :: "nat \<Rightarrow> nat \<Rightarrow> nat \<Rightarrow> real"
  occupation :: "real array2"
  unitcell_y :: nat
  unitcell_x :: nat
  SIMULTANEOUS_SWITCHES_CONVOLUTION_OR_SUM_CUTOFF :: nat
  REDUCED_KERNEL_SIZE :: nat
  nearest_neighbors_shape :: "nat \<times> nat"
  nearest_neighbors :: "real array2"

text \<open>The scheduler switches magnets by negating their entries of \<^verbatim>\<open>mm.m\<close>.\<close>

definition switch_at :: "(nat \<times> nat) list \<Rightarrow> Magnets \<Rightarrow> Magnets" where
  "switch_at ps mm = mm\<lparr>m := (\<lambda>y x. if (y, x) \<in> set ps then - m mm y x else m mm y x)\<rparr>"


section \<open>The abstract energy contribution\<close>

record Energy =
  E :: "xreal array2"
  E_perp :: "xreal array2"

text \<open>
  \<^verbatim>\<open>energy_switch\<close> returns an array: the whole grid when \<^verbatim>\<open>indices2D\<close> is \<^verbatim>\<open>None\<close>,
  one entry per sampled magnet otherwise. \<^verbatim>\<open>indices2D\<close> is a \<open>(2, N)\<close> array of the rows
  \<open>y\<close> and \<open>x\<close>; it is modelled by the list of its columns \<open>(y, x)\<close>. Indexing outside the
  grid raises. The object is returned beside the value to record that it is not changed.
\<close>

datatype switch_energies = Whole "xreal array2" | Sampled "xreal list"

definition energy_switch ::
  "Magnets \<Rightarrow> 'a Energy_scheme \<Rightarrow> (nat \<times> nat) list option
     \<Rightarrow> error + ('a Energy_scheme \<times> switch_energies)" where
  "energy_switch mm self indices2D =
     (case indices2D of
        None \<Rightarrow> Inr (self, Whole (\<lambda>y x. Fin (- 2) * E self y x))
      | Some ps \<Rightarrow>
          if \<forall>p \<in> set ps. in_shape (ny mm) (nx mm) p
          then Inr (self, Sampled (map (\<lambda>(y, x). Fin (- 2) * E self y x) ps))
          else Inl IndexError)"

text \<open>
  \<^verbatim>\<open>scipy.signal.convolve2d(in1, in2, mode='same', boundary=...)\<close>: the output has the shape
  of \<open>in1\<close> and is the centred part of the full convolution, entry \<open>(i, j)\<close> of it being
  entry \<open>(i + (h2 - 1) div 2, j + (w2 - 1) div 2)\<close> of the full one. Outside its shape
  \<open>in1\<close> reads as zero (\<^verbatim>\<open>'fill'\<close>) or periodically (\<^verbatim>\<open>'wrap'\<close>).
\<close>

definition pad_index :: "bool \<Rightarrow> nat \<Rightarrow> int \<Rightarrow> nat option" where
  "pad_index wrap n i =
     (if 0 \<le> i \<and> i < int n then Some (nat i)
      else if wrap then Some (nat (i mod int n))
      else None)"

definition convolve2d_same ::
  "bool \<Rightarrow> nat \<times> nat \<Rightarrow> ('a::{comm_monoid_add,times}) array2 \<Rightarrow> nat \<times> nat \<Rightarrow> 'a array2
     \<Rightarrow> 'a array2" where
  "convolve2d_same wrap shape1 in1 shape2 in2 =
     (\<lambda>i j. \<Sum>a<fst shape2. \<Sum>b<snd shape2.
        (case pad_index wrap (fst shape1) (int i + int ((fst shape2 - 1) div 2) - int a) of
           None \<Rightarrow> 0
         | Some u \<Rightarrow>
            (case pad_index wrap (snd shape1) (int j + int ((snd shape2 - 1) div 2) - int b) of
               None \<Rightarrow> 0
             | Some v \<Rightarrow> in1 u v * in2 a b)))"

text \<open>
  \<^verbatim>\<open>mode='valid'\<close> with \<open>in1\<close> at least as large as \<open>in2\<close> in both directions: the entries
  of the full convolution that use no padding, output shape \<open>(h1 - h2 + 1, w1 - w2 + 1)\<close>.
\<close>

definition convolve2d_valid ::
  "('a::{comm_monoid_add,times}) array2 \<Rightarrow> nat \<times> nat \<Rightarrow> 'a array2 \<Rightarrow> 'a array2" where
  "convolve2d_valid in1 shape2 in2 =
     (\<lambda>i j. \<Sum>u<fst shape2. \<Sum>v<snd shape2.
        in1 (i + (fst shape2 - 1) - u) (j + (snd shape2 - 1) - v) * in2 u v)"


section \<open>Zeeman energy\<close>

text \<open>
  Modelled from the spec: \<^verbatim>\<open>as_2D_array\<close> of \<^verbatim>\<open>hotspice/utils.py\<close>, which is not among
  the sources. The field magnitude and angle "may be a scalar or a full per-site array";
  a scalar stands for the array that holds it at every site.
\<close>

datatype field_value = Scalar real | PerSite "real array2"

fun as_2D_array :: "field_value \<Rightarrow> real array2" where
  "as_2D_array (Scalar c) = (\<lambda>y x. c)"
| "as_2D_array (PerSite A) = A"

text \<open>The fields \<^verbatim>\<open>_magnitude\<close> and \<^verbatim>\<open>_angle\<close> are \<open>raw_magnitude\<close> and \<open>raw_angle\<close>.\<close>

record ZeemanEnergy = Energy +
  raw_magnitude :: field_value
  raw_angle :: field_value
  E_factor :: "real array2"
  E_factor_perp :: "real array2"

definition magnitude :: "ZeemanEnergy \<Rightarrow> real array2" where
  "magnitude self = as_2D_array (raw_magnitude self)"

definition angle :: "ZeemanEnergy \<Rightarrow> real array2" where
  "angle self = as_2D_array (raw_angle self)"

definition ZeemanEnergy_update :: "Magnets \<Rightarrow> ZeemanEnergy \<Rightarrow> ZeemanEnergy" where
  "ZeemanEnergy_update mm self =
     self\<lparr>E := (\<lambda>y x. Fin (m mm y x * E_factor self y x)),
          E_perp := (if USE_PERP_ENERGY mm
                     then (\<lambda>y x. Fin (m mm y x * E_factor_perp self y x))
                     else E_perp self)\<rparr>"

definition ZeemanEnergy_set_field ::
  "Magnets \<Rightarrow> ZeemanEnergy \<Rightarrow> field_value option \<Rightarrow> field_value option \<Rightarrow> ZeemanEnergy" where
  "ZeemanEnergy_set_field mm self new_magnitude new_angle =
     (let self1 = (case new_magnitude of None \<Rightarrow> self | Some v \<Rightarrow> self\<lparr>raw_magnitude := v\<rparr>);
          self2 = (case new_angle of None \<Rightarrow> self1 | Some v \<Rightarrow> self1\<lparr>raw_angle := v\<rparr>);
          self3 =
            (if in_plane mm
             then self2\<lparr>
               E_factor := (\<lambda>y x. - moment mm y x *
                  (magnitude self2 y x * cos (angle self2 y x) * orientation mm y x 0
                   + magnitude self2 y x * sin (angle self2 y x) * orientation mm y x 1)),
               E_factor_perp := (\<lambda>y x. - moment mm y x *
                  (magnitude self2 y x * sin (angle self2 y x) * orientation mm y x 0
                   - magnitude self2 y x * cos (angle self2 y x) * orientation mm y x 1))\<rparr>
             else self2\<lparr>
               E_factor := (\<lambda>y x. - moment mm y x * magnitude self2 y x),
               E_factor_perp := (\<lambda>y x. 0)\<rparr>)
      in ZeemanEnergy_update mm self3)"

text \<open>\<^verbatim>\<open>ZeemanEnergy(magnitude, angle)\<close> followed by \<^verbatim>\<open>initialize(mm)\<close>.\<close>

definition ZeemanEnergy_initialize :: "Magnets \<Rightarrow> field_value \<Rightarrow> field_value \<Rightarrow> ZeemanEnergy" where
  "ZeemanEnergy_initialize mm magnitude0 angle0 =
     (let self0 = \<lparr>E = (\<lambda>y x. 0), E_perp = (\<lambda>y x. 0),
                   raw_magnitude = magnitude0, raw_angle = angle0,
                   E_factor = (\<lambda>y x. 0), E_factor_perp = (\<lambda>y x. 0)\<rparr>;
          self1 = ZeemanEnergy_set_field mm self0 (Some magnitude0) (Some angle0)
      in ZeemanEnergy_update mm self1)"

definition ZeemanEnergy_update_single ::
  "Magnets \<Rightarrow> ZeemanEnergy \<Rightarrow> nat \<times> nat \<Rightarrow> error + ZeemanEnergy" where
  "ZeemanEnergy_update_single mm self index2D =
     (if in_shape (ny mm) (nx mm) index2D
      then Inr (self\<lparr>E := negate_at [index2D] (E self),
                     E_perp := (if USE_PERP_ENERGY mm then negate_at [index2D] (E_perp self)
                                else E_perp self)\<rparr>)
      else Inl IndexError)"

definition ZeemanEnergy_update_multiple ::
  "Magnets \<Rightarrow> ZeemanEnergy \<Rightarrow> (nat \<times> nat) list \<Rightarrow> error + ZeemanEnergy" where
  "ZeemanEnergy_update_multiple mm self indices2D =
     (if \<forall>p \<in> set indices2D. in_shape (ny mm) (nx mm) p
      then Inr (self\<lparr>E := negate_at indices2D (E self),
                     E_perp := (if USE_PERP_ENERGY mm then negate_at indices2D (E_perp self)
                                else E_perp self)\<rparr>)
      else Inl IndexError)"

definition ZeemanEnergy_E_tot :: "Magnets \<Rightarrow> ZeemanEnergy \<Rightarrow> xreal" where
  "ZeemanEnergy_E_tot mm self = xp_sum (ny mm) (nx mm) (E self)"


section \<open>Exchange energy\<close>

record ExchangeEnergy = Energy +
  J :: real
  local_interaction_shape :: "nat \<times> nat"
  local_interaction :: "real array2"

definition ExchangeEnergy_update :: "Magnets \<Rightarrow> ExchangeEnergy \<Rightarrow> ExchangeEnergy" where
  "ExchangeEnergy_update mm self =
     (if in_plane mm then
        (let mx = (\<lambda>y x. orientation mm y x 0 * m mm y x);
             my = (\<lambda>y x. orientation mm y x 1 * m mm y x);
             sum_mx = convolve2d_same (PBC mm) (ny mm, nx mm) mx
                        (local_interaction_shape self) (local_interaction self);
             sum_my = convolve2d_same (PBC mm) (ny mm, nx mm) my
                        (local_interaction_shape self) (local_interaction self)
         in self\<lparr>E := (\<lambda>y x. Fin (- J self * (sum_mx y x * mx y x + sum_my y x * my y x))),
                 E_perp := (if USE_PERP_ENERGY mm
                            then (\<lambda>y x. Fin (- J self * (sum_my y x * mx y x - sum_mx y x * my y x)))
                            else E_perp self)\<rparr>)
      else
        self\<lparr>E := (\<lambda>y x. Fin (- J self *
                      (convolve2d_same (PBC mm) (ny mm, nx mm) (m mm)
                         (local_interaction_shape self) (local_interaction self) y x * m mm y x))),
             E_perp := (if USE_PERP_ENERGY mm then (\<lambda>y x. 0) else E_perp self)\<rparr>)"

definition ExchangeEnergy_initialize :: "Magnets \<Rightarrow> real \<Rightarrow> ExchangeEnergy" where
  "ExchangeEnergy_initialize mm J0 =
     ExchangeEnergy_update mm
       \<lparr>E = (\<lambda>y x. 0), E_perp = (\<lambda>y x. 0), J = J0,
        local_interaction_shape = nearest_neighbors_shape mm,
        local_interaction = nearest_neighbors mm\<rparr>"

definition ExchangeEnergy_update_single ::
  "Magnets \<Rightarrow> ExchangeEnergy \<Rightarrow> nat \<times> nat \<Rightarrow> error + ExchangeEnergy" where
  "ExchangeEnergy_update_single mm self index2D = Inr (ExchangeEnergy_update mm self)"

definition ExchangeEnergy_update_multiple ::
  "Magnets \<Rightarrow> ExchangeEnergy \<Rightarrow> (nat \<times> nat) list \<Rightarrow> error + ExchangeEnergy" where
  "ExchangeEnergy_update_multiple mm self indices2D = Inr (ExchangeEnergy_update mm self)"

definition ExchangeEnergy_E_tot :: "Magnets \<Rightarrow> ExchangeEnergy \<Rightarrow> xreal" where
  "ExchangeEnergy_E_tot mm self = xp_sum (ny mm) (nx mm) (E self) / Fin 2"


section \<open>Dipolar energy\<close>

record DipolarEnergy = Energy +
  prefactor :: real
  decay_exponent :: real
  kernel_unitcell_indices :: "nat \<Rightarrow> nat \<Rightarrow> int"
  kernel_unitcell :: "xreal array2 list"
  kernel_perpself_unitcell :: "xreal array2 list"
  kernel_perpother_unitcell :: "xreal array2 list"

subsection \<open>Kernel construction\<close>

text \<open>
  \<^verbatim>\<open>mirror4\<close> is taken from \<^verbatim>\<open>hotspin/utils.py\<close>, the earlier name of the package. It
  writes the array of shape \<open>(h, w)\<close> four times into one of shape \<open>(2h - 1, 2w - 1)\<close>; the
  four assignments overlap on the middle row and column, where the last one written
  stands. The if-chain below tests the assignments from the last to the first.
\<close>

definition mirror4 :: "nat \<Rightarrow> nat \<Rightarrow> xreal array2 \<Rightarrow> bool \<Rightarrow> bool \<Rightarrow> xreal array2" where
  "mirror4 h w arr negativex negativey =
     (let xp = (if negativex then - 1 else 1 :: real);
          yp = (if negativey then - 1 else 1 :: real)
      in (\<lambda>i j.
            if i \<le> h - 1 \<and> j \<le> w - 1 then Fin (xp * yp) * arr (h - 1 - i) (w - 1 - j)
            else if i \<le> h - 1 then Fin yp * arr (h - 1 - i) (j - (w - 1))
            else if j \<le> w - 1 then Fin xp * arr (i - (h - 1)) (w - 1 - j)
            else arr (i - (h - 1)) (j - (w - 1))))"

definition rrx :: "Magnets \<Rightarrow> real array2" where
  "rrx mm = (\<lambda>a b. xx mm a b - xx mm 0 0)"

definition rry :: "Magnets \<Rightarrow> real array2" where
  "rry mm = (\<lambda>a b. yy mm a b - yy mm 0 0)"

text \<open>\<^verbatim>\<open>rr_sq = rrx**2 + rry**2; rr_sq[0,0] = xp.inf\<close>\<close>

definition rr_sq :: "Magnets \<Rightarrow> xreal array2" where
  "rr_sq mm = (\<lambda>a b. if a = 0 \<and> b = 0 then PInf else Fin ((rrx mm a b)\<^sup>2 + (rry mm a b)\<^sup>2))"

definition rr_inv :: "Magnets \<Rightarrow> xreal array2" where
  "rr_inv mm = (\<lambda>a b. xpow (rr_sq mm a b) (- (1 / 2)))"

definition rr_inv3 :: "Magnets \<Rightarrow> real \<Rightarrow> xreal array2" where
  "rr_inv3 mm de = (\<lambda>a b. xpow (rr_inv mm a b) (- de))"

definition rinv3 :: "Magnets \<Rightarrow> real \<Rightarrow> xreal array2" where
  "rinv3 mm de = mirror4 (ny mm) (nx mm) (rr_inv3 mm de) False False"

definition ux :: "Magnets \<Rightarrow> xreal array2" where
  "ux mm = mirror4 (ny mm) (nx mm) (\<lambda>a b. Fin (rrx mm a b) * rr_inv mm a b) True False"

definition uy :: "Magnets \<Rightarrow> xreal array2" where
  "uy mm = mirror4 (ny mm) (nx mm) (\<lambda>a b. Fin (rry mm a b) * rr_inv mm a b) False True"

text \<open>
  \<^verbatim>\<open>2*math.ceil(n/uc) + 1\<close> unit cells are tiled in each direction. The tiled array is
  read through its indexing function; the slice of \<open>2n - 1\<close> entries that starts at
  \<open>slice_start\<close> always lies inside the tiled array.
\<close>

definition num_unitcells :: "nat \<Rightarrow> nat \<Rightarrow> nat" where
  "num_unitcells n uc = 2 * ((n + uc - 1) div uc) + 1"

definition slice_start :: "nat \<Rightarrow> nat \<Rightarrow> nat \<Rightarrow> nat" where
  "slice_start n uc c = (uc - ((n - 1) mod uc) + c) mod uc"

definition toolargematrix :: "Magnets \<Rightarrow> real array2 \<Rightarrow> real array2" where
  "toolargematrix mm unitcell_o = (\<lambda>i j. unitcell_o (i mod unitcell_y mm) (j mod unitcell_x mm))"

text \<open>The slice \<^verbatim>\<open>[slice_starty:slice_starty+2*ny-1, slice_startx:slice_startx+2*nx-1]\<close>.\<close>

definition unitcell_slice :: "Magnets \<Rightarrow> nat \<Rightarrow> nat \<Rightarrow> real array2 \<Rightarrow> real array2" where
  "unitcell_slice mm y x A =
     (\<lambda>i j. A (slice_start (ny mm) (unitcell_y mm) y + i) (slice_start (nx mm) (unitcell_x mm) x + j))"

text \<open>
  The angular formula of the in-plane kernels, shared by the normal kernel and the two
  perpendicular ones, which differ in the orientations put in.
\<close>

definition dipole_kernel ::
  "real \<Rightarrow> real \<Rightarrow> real array2 \<Rightarrow> real array2 \<Rightarrow> xreal array2 \<Rightarrow> xreal array2 \<Rightarrow> xreal array2
     \<Rightarrow> xreal array2" where
  "dipole_kernel ox1 oy1 ox2 oy2 u_x u_y r_inv3 =
     (\<lambda>i j.
        let kernel1 = Fin (ox1 * ox2 i j) * (Fin 3 * (u_x i j * u_x i j) - Fin 1);
            kernel2 = Fin (oy1 * oy2 i j) * (Fin 3 * (u_y i j * u_y i j) - Fin 1);
            kernel3 = Fin 3 * (u_x i j * u_y i j) * Fin (ox1 * oy2 i j + oy1 * ox2 i j)
        in (- (kernel1 + kernel2 + kernel3)) * r_inv3 i j)"

text \<open>
  \<^verbatim>\<open>apply_PBC\<close> adds eight shifted copies of the kernel as it was on entry (\<^verbatim>\<open>kopy\<close>),
  one slice assignment after the other, for a lattice of \<open>h\<close> rows and \<open>w\<close> columns.
\<close>

definition apply_PBC :: "nat \<Rightarrow> nat \<Rightarrow> xreal array2 \<Rightarrow> xreal array2" where
  "apply_PBC h w k =
     (\<lambda>i j. k i j
        + (if w \<le> j then k i (j - w) else 0)
        + (if h \<le> i \<and> w \<le> j then k (i - h) (j - w) else 0)
        + (if h \<le> i then k (i - h) j else 0)
        + (if h \<le> i \<and> j < w - 1 then k (i - h) (j + w) else 0)
        + (if j < w - 1 then k i (j + w) else 0)
        + (if i < h - 1 \<and> j < w - 1 then k (i + h) (j + w) else 0)
        + (if i < h - 1 then k (i + h) j else 0)
        + (if i < h - 1 \<and> w \<le> j then k (i + h) (j - w) else 0))"

text \<open>The test for an empty cell of the unit cell.\<close>

definition cell_empty :: "Magnets \<Rightarrow> nat \<Rightarrow> nat \<Rightarrow> bool" where
  "cell_empty mm y x =
     (if in_plane mm then orientation mm y x 0 = orientation mm y x 1 \<and> orientation mm y x 1 = 0
      else occupation mm y x = 0)"

text \<open>
  The three kernels of the magnet at \<open>(y, x)\<close> of the unit cell, as appended to the three
  lists: normal, perpendicular-self, perpendicular-other.
\<close>

definition kernels_at ::
  "Magnets \<Rightarrow> real \<Rightarrow> nat \<Rightarrow> nat \<Rightarrow> xreal array2 \<times> xreal array2 \<times> xreal array2" where
  "kernels_at mm de y x =
     (let kernels =
        (if in_plane mm then
           (let ox1 = orientation mm y x 0;
                oy1 = orientation mm y x 1;
                ox2 = unitcell_slice mm y x (toolargematrix mm (\<lambda>i j. orientation mm i j 0));
                oy2 = unitcell_slice mm y x (toolargematrix mm (\<lambda>i j. orientation mm i j 1))
            in (dipole_kernel ox1 oy1 ox2 oy2 (ux mm) (uy mm) (rinv3 mm de),
                dipole_kernel (- oy1) ox1 ox2 oy2 (ux mm) (uy mm) (rinv3 mm de),
                dipole_kernel ox1 oy1 (\<lambda>i j. - oy2 i j) ox2 (ux mm) (uy mm) (rinv3 mm de)))
         else
           (let o2 = unitcell_slice mm y x (toolargematrix mm (occupation mm))
            in ((\<lambda>i j. Fin (o2 i j) * rinv3 mm de i j), (\<lambda>i j. 0), (\<lambda>i j. 0))));
          pbc = (\<lambda>k. if PBC mm then apply_PBC (ny mm) (nx mm) k else k);
          scale = (\<lambda>k i j. k i j * Fin (1 / 10 ^ 7))
      in (scale (pbc (fst kernels)), scale (pbc (fst (snd kernels))),
          scale (pbc (snd (snd kernels)))))"

text \<open>
  The double loop over the unit cell, as a recursion over its cells in row-major order;
  the accumulator holds \<^verbatim>\<open>kernel_unitcell_indices\<close> and the three lists.
\<close>

definition unitcell_cells :: "Magnets \<Rightarrow> (nat \<times> nat) list" where
  "unitcell_cells mm = List.product [0..<unitcell_y mm] [0..<unitcell_x mm]"

fun build_kernels ::
  "Magnets \<Rightarrow> real \<Rightarrow> (nat \<times> nat) list
     \<Rightarrow> (nat \<Rightarrow> nat \<Rightarrow> int) \<times> xreal array2 list \<times> xreal array2 list \<times> xreal array2 list
     \<Rightarrow> (nat \<Rightarrow> nat \<Rightarrow> int) \<times> xreal array2 list \<times> xreal array2 list \<times> xreal array2 list" where
  "build_kernels mm de [] acc = acc"
| "build_kernels mm de ((y, x) # cells) (idx, ks, kself, kother) =
     (if cell_empty mm y x then build_kernels mm de cells (idx, ks, kself, kother)
      else build_kernels mm de cells
             (idx(y := (idx y)(x := int (length ks))),
              ks @ [fst (kernels_at mm de y x)],
              kself @ [fst (snd (kernels_at mm de y x))],
              kother @ [snd (snd (kernels_at mm de y x))]))"

text \<open>
  \<^verbatim>\<open>DipolarEnergy._initialize\<close>. An empty lattice (\<^verbatim>\<open>xx[0,0]\<close>), a unit cell of size zero
  (\<^verbatim>\<open>nx/self.unitcell.x\<close>) and a unit cell larger than the lattice (\<^verbatim>\<open>unitcell_ox[y,x]\<close>)
  make the source raise.
\<close>

definition DipolarEnergy__initialize :: "Magnets \<Rightarrow> DipolarEnergy \<Rightarrow> error + DipolarEnergy" where
  "DipolarEnergy__initialize mm self =
     (if ny mm = 0 \<or> nx mm = 0 then Inl IndexError
      else if unitcell_x mm = 0 \<or> unitcell_y mm = 0 then Inl ZeroDivisionError
      else if ny mm < unitcell_y mm \<or> nx mm < unitcell_x mm then Inl IndexError
      else
        (case build_kernels mm (decay_exponent self) (unitcell_cells mm)
                ((\<lambda>y x. - 1), [], [], []) of
           (idx, ks, kself, kother) \<Rightarrow>
             Inr (self\<lparr>kernel_unitcell_indices := idx, kernel_unitcell := ks,
                       kernel_perpself_unitcell := kself,
                       kernel_perpother_unitcell := kother\<rparr>)))"

subsection \<open>Full recalculation\<close>

text \<open>\<^verbatim>\<open>kernel_unitcell[n,::-1,::-1]\<close> for kernels of shape \<open>(2 ny - 1, 2 nx - 1)\<close>.\<close>

definition reversed :: "Magnets \<Rightarrow> xreal array2 \<Rightarrow> xreal array2" where
  "reversed mm k = (\<lambda>a b. k (2 * ny mm - 2 - a) (2 * nx mm - 2 - b))"

definition partial_m :: "Magnets \<Rightarrow> nat \<Rightarrow> nat \<Rightarrow> real array2" where
  "partial_m mm y x =
     (\<lambda>i j. if i mod unitcell_y mm = y \<and> j mod unitcell_x mm = x then m mm i j else 0)"

definition mmoment :: "Magnets \<Rightarrow> real array2" where
  "mmoment mm = (\<lambda>y x. m mm y x * moment mm y x)"

fun update_cells ::
  "Magnets \<Rightarrow> DipolarEnergy \<Rightarrow> (nat \<times> nat) list \<Rightarrow> xreal array2 \<times> xreal array2
     \<Rightarrow> error + (xreal array2 \<times> xreal array2)" where
  "update_cells mm self [] acc = Inr acc"
| "update_cells mm self ((y, x) # cells) (total_energy, total_energy_perp) =
     (let n = kernel_unitcell_indices self y x in
      if n < 0 then update_cells mm self cells (total_energy, total_energy_perp)
      else if length (kernel_unitcell self) \<le> nat n
              \<or> (USE_PERP_ENERGY mm \<and> length (kernel_perpself_unitcell self) \<le> nat n)
      then Inl IndexError
      else
        update_cells mm self cells
          ((\<lambda>i j. total_energy i j
              + Fin (partial_m mm y x i j)
                * convolve2d_valid (reversed mm (kernel_unitcell self ! nat n)) (ny mm, nx mm)
                    (\<lambda>u v. Fin (mmoment mm u v)) i j),
           (if USE_PERP_ENERGY mm
            then (\<lambda>i j. total_energy_perp i j
              + Fin (partial_m mm y x i j)
                * convolve2d_valid (reversed mm (kernel_perpself_unitcell self ! nat n))
                    (ny mm, nx mm) (\<lambda>u v. Fin (mmoment mm u v)) i j)
            else total_energy_perp)))"

definition DipolarEnergy_update :: "Magnets \<Rightarrow> DipolarEnergy \<Rightarrow> error + DipolarEnergy" where
  "DipolarEnergy_update mm self =
     (case update_cells mm self (unitcell_cells mm) ((\<lambda>i j. 0), (\<lambda>i j. 0)) of
        Inl e \<Rightarrow> Inl e
      | Inr (total_energy, total_energy_perp) \<Rightarrow>
          Inr (self\<lparr>E := (\<lambda>i j. Fin (prefactor self * moment mm i j) * total_energy i j),
                    E_perp := (if USE_PERP_ENERGY mm
                               then (\<lambda>i j. Fin (prefactor self * moment mm i j)
                                            * total_energy_perp i j)
                               else E_perp self)\<rparr>))"

text \<open>
  \<^verbatim>\<open>DipolarEnergy(prefactor, decay_exponent)\<close>, with the grids that
  \<^verbatim>\<open>Energy.initialize\<close> allocates, and \<^verbatim>\<open>initialize(mm)\<close> on it.
\<close>

definition DipolarEnergy_new :: "real \<Rightarrow> real \<Rightarrow> DipolarEnergy" where
  "DipolarEnergy_new prefactor0 decay_exponent0 =
     \<lparr>E = (\<lambda>y x. 0), E_perp = (\<lambda>y x. 0), prefactor = prefactor0,
      decay_exponent = decay_exponent0, kernel_unitcell_indices = (\<lambda>y x. - 1),
      kernel_unitcell = [], kernel_perpself_unitcell = [],
      kernel_perpother_unitcell = []\<rparr>"

definition DipolarEnergy_initialize :: "Magnets \<Rightarrow> real \<Rightarrow> real \<Rightarrow> error + DipolarEnergy" where
  "DipolarEnergy_initialize mm prefactor0 decay_exponent0 =
     (case DipolarEnergy__initialize mm (DipolarEnergy_new prefactor0 decay_exponent0) of
        Inl e \<Rightarrow> Inl e
      | Inr self \<Rightarrow> DipolarEnergy_update mm self)"

subsection \<open>Incremental updates\<close>

text \<open>
  \<^verbatim>\<open>update_single\<close>: the kernel window
  \<^verbatim>\<open>[ny-1-y:2*ny-1-y, nx-1-x:2*nx-1-x]\<close> puts the kernel centre on the switched magnet.
  A magnet outside the lattice makes \<^verbatim>\<open>mmoment[y, x]\<close> raise, unless the return for an
  empty cell came first.
\<close>

definition DipolarEnergy_update_single ::
  "Magnets \<Rightarrow> DipolarEnergy \<Rightarrow> nat \<times> nat \<Rightarrow> error + DipolarEnergy" where
  "DipolarEnergy_update_single mm self index2D =
     (let y = fst index2D; x = snd index2D;
          x_unitcell = x mod unitcell_x mm;
          y_unitcell = y mod unitcell_y mm;
          n = kernel_unitcell_indices self y_unitcell x_unitcell
      in if n < 0 then Inr self
         else if length (kernel_unitcell self) \<le> nat n then Inl IndexError
         else if \<not> in_shape (ny mm) (nx mm) index2D then Inl IndexError
         else if USE_PERP_ENERGY mm \<and> length (kernel_perpother_unitcell self) \<le> nat n
         then Inl IndexError
         else
           (let usefulkernel = (\<lambda>u v. (kernel_unitcell self ! nat n)
                                   (ny mm - 1 - y + u) (nx mm - 1 - x + v));
                interaction = (\<lambda>u v. Fin (prefactor self * mmoment mm y x)
                                   * (Fin (mmoment mm u v) * usefulkernel u v));
                E1 = (\<lambda>u v. E self u v + Fin 2 * interaction u v);
                usefulkernel_perp = (\<lambda>u v. (kernel_perpother_unitcell self ! nat n)
                                   (ny mm - 1 - y + u) (nx mm - 1 - x + v));
                interaction_perp = (\<lambda>u v. Fin (prefactor self * mmoment mm y x)
                                   * (Fin (mmoment mm u v) * usefulkernel_perp u v));
                E_perp1 = (\<lambda>u v. E_perp self u v + Fin 2 * interaction_perp u v)
            in Inr (self\<lparr>E := negate_at [index2D] E1,
                         E_perp := (if USE_PERP_ENERGY mm then negate_at [index2D] E_perp1
                                    else E_perp self)\<rparr>)))"

text \<open>
  \<^verbatim>\<open>update_multiple\<close>. The magnets are binned by their place in the unit cell
  (\<open>raveled\<close>); every bin that is not empty is handled by one of two branches.
\<close>

definition raveled :: "Magnets \<Rightarrow> nat \<times> nat \<Rightarrow> nat" where
  "raveled mm p = snd p mod unitcell_x mm + (fst p mod unitcell_y mm) * unitcell_x mm"

text \<open>The branch "manual convolution": one kernel window per switched magnet.\<close>

fun direct_sum ::
  "Magnets \<Rightarrow> xreal array2 \<Rightarrow> (nat \<times> nat) list \<Rightarrow> xreal array2 \<Rightarrow> xreal array2" where
  "direct_sum mm kern [] convolvedkernel = convolvedkernel"
| "direct_sum mm kern ((y, x) # rest) convolvedkernel =
     direct_sum mm kern rest
       (\<lambda>u v. convolvedkernel u v
          + Fin (mmoment mm y x) * kern (ny mm - 1 - y + u) (nx mm - 1 - x + v))"

text \<open>The branch "convolution", on the kernel cut to \<^verbatim>\<open>REDUCED_KERNEL_SIZE\<close>.\<close>

definition switched_field :: "Magnets \<Rightarrow> (nat \<times> nat) list \<Rightarrow> xreal array2" where
  "switched_field mm indices2D_here =
     (\<lambda>y x. if (y, x) \<in> set indices2D_here then Fin (m mm y x) else 0)"

definition usefulkernel_shape :: "Magnets \<Rightarrow> nat \<times> nat" where
  "usefulkernel_shape mm =
     (let k = REDUCED_KERNEL_SIZE mm; kx = min k (nx mm - 1); ky = min k (ny mm - 1)
      in if k \<noteq> 0 then (2 * ky + 1, 2 * kx + 1) else (2 * ny mm - 1, 2 * nx mm - 1))"

definition usefulkernel :: "Magnets \<Rightarrow> xreal array2 \<Rightarrow> xreal array2" where
  "usefulkernel mm kern =
     (let k = REDUCED_KERNEL_SIZE mm; kx = min k (nx mm - 1); ky = min k (ny mm - 1)
      in if k \<noteq> 0 then (\<lambda>a b. kern (ny mm - 1 - ky + a) (nx mm - 1 - kx + b)) else kern)"

definition convolvedkernel :: "Magnets \<Rightarrow> xreal array2 \<Rightarrow> (nat \<times> nat) list \<Rightarrow> xreal array2" where
  "convolvedkernel mm kern indices2D_here =
     (if SIMULTANEOUS_SWITCHES_CONVOLUTION_OR_SUM_CUTOFF mm < length indices2D_here
      then convolve2d_same (PBC mm) (ny mm, nx mm) (switched_field mm indices2D_here)
             (usefulkernel_shape mm) (usefulkernel mm kern)
      else direct_sum mm kern indices2D_here (\<lambda>u v. 0))"

fun update_groups ::
  "Magnets \<Rightarrow> DipolarEnergy \<Rightarrow> (nat \<times> nat) list \<Rightarrow> nat list \<Rightarrow> xreal array2 \<times> xreal array2
     \<Rightarrow> error + (xreal array2 \<times> xreal array2)" where
  "update_groups mm self indices2D [] acc = Inr acc"
| "update_groups mm self indices2D (i # rest) (E0, E_perp0) =
     (let y_unitcell = i div unitcell_x mm;
          x_unitcell = i mod unitcell_x mm;
          n = kernel_unitcell_indices self y_unitcell x_unitcell
      in if n < 0 then update_groups mm self indices2D rest (E0, E_perp0)
         else if length (kernel_unitcell self) \<le> nat n
                 \<or> (USE_PERP_ENERGY mm \<and> length (kernel_perpother_unitcell self) \<le> nat n)
         then Inl IndexError
         else
           (let indices2D_here = filter (\<lambda>p. raveled mm p = i) indices2D
            in update_groups mm self indices2D rest
                 ((\<lambda>u v. E0 u v + Fin 2 * (Fin (prefactor self)
                      * (Fin (mmoment mm u v)
                         * convolvedkernel mm (kernel_unitcell self ! nat n) indices2D_here u v))),
                  (if USE_PERP_ENERGY mm
                   then (\<lambda>u v. E_perp0 u v + Fin 2 * (Fin (prefactor self)
                      * (Fin (mmoment mm u v)
                         * convolvedkernel mm (kernel_perpother_unitcell self ! nat n)
                             indices2D_here u v)))
                   else E_perp0))))"

definition DipolarEnergy_update_multiple ::
  "Magnets \<Rightarrow> DipolarEnergy \<Rightarrow> (nat \<times> nat) list \<Rightarrow> error + DipolarEnergy" where
  "DipolarEnergy_update_multiple mm self indices2D =
     (if \<not> (\<forall>p \<in> set indices2D. in_shape (ny mm) (nx mm) p) then Inl IndexError
      else
        (case update_groups mm self indices2D
                (filter (\<lambda>i. \<exists>p \<in> set indices2D. raveled mm p = i)
                   [0..<unitcell_y mm * unitcell_x mm])
                (negate_at indices2D (E self),
                 if USE_PERP_ENERGY mm then negate_at indices2D (E_perp self) else E_perp self) of
           Inl e \<Rightarrow> Inl e
         | Inr (E1, E_perp1) \<Rightarrow> Inr (self\<lparr>E := E1, E_perp := E_perp1\<rparr>)))"

definition DipolarEnergy_E_tot :: "Magnets \<Rightarrow> DipolarEnergy \<Rightarrow> xreal" where
  "DipolarEnergy_E_tot mm self = xp_sum (ny mm) (nx mm) (E self) / Fin 2"


section \<open>The contributions behind one interface\<close>

text \<open>
  The three classes implement the abstract methods of \<^verbatim>\<open>Energy\<close>; a call on an
  \<^verbatim>\<open>Energy\<close> object is dispatched on its class.
\<close>

datatype contribution = Zeeman ZeemanEnergy | Dipolar DipolarEnergy | Exchange ExchangeEnergy

datatype parameters = ZeemanParams field_value field_value | DipolarParams real real
  | ExchangeParams real

fun E_of :: "contribution \<Rightarrow> xreal array2" where
  "E_of (Zeeman z) = E z"
| "E_of (Dipolar d) = E d"
| "E_of (Exchange e) = E e"

fun E_perp_of :: "contribution \<Rightarrow> xreal array2" where
  "E_perp_of (Zeeman z) = E_perp z"
| "E_perp_of (Dipolar d) = E_perp d"
| "E_perp_of (Exchange e) = E_perp e"


text \<open>A call that raises ends the sequence of calls it stands in.\<close>

definition and_then :: "error + 'a \<Rightarrow> ('a \<Rightarrow> error + 'b) \<Rightarrow> error + 'b" where
  "and_then r f = (case r of Inl e \<Rightarrow> Inl e | Inr v \<Rightarrow> f v)"

fun initialize :: "Magnets \<Rightarrow> parameters \<Rightarrow> error + contribution" where
  "initialize mm (ZeemanParams magnitude0 angle0) =
     Inr (Zeeman (ZeemanEnergy_initialize mm magnitude0 angle0))"
| "initialize mm (DipolarParams prefactor0 decay_exponent0) =
     and_then (DipolarEnergy_initialize mm prefactor0 decay_exponent0) (\<lambda>d. Inr (Dipolar d))"
| "initialize mm (ExchangeParams J0) = Inr (Exchange (ExchangeEnergy_initialize mm J0))"

fun update :: "Magnets \<Rightarrow> contribution \<Rightarrow> error + contribution" where
  "update mm (Zeeman z) = Inr (Zeeman (ZeemanEnergy_update mm z))"
| "update mm (Dipolar d) = and_then (DipolarEnergy_update mm d) (\<lambda>d. Inr (Dipolar d))"
| "update mm (Exchange e) = Inr (Exchange (ExchangeEnergy_update mm e))"

fun update_single :: "Magnets \<Rightarrow> contribution \<Rightarrow> nat \<times> nat \<Rightarrow> error + contribution" where
  "update_single mm (Zeeman z) p =
     and_then (ZeemanEnergy_update_single mm z p) (\<lambda>z. Inr (Zeeman z))"
| "update_single mm (Dipolar d) p =
     and_then (DipolarEnergy_update_single mm d p) (\<lambda>d. Inr (Dipolar d))"
| "update_single mm (Exchange e) p =
     and_then (ExchangeEnergy_update_single mm e p) (\<lambda>e. Inr (Exchange e))"

fun update_multiple :: "Magnets \<Rightarrow> contribution \<Rightarrow> (nat \<times> nat) list \<Rightarrow> error + contribution" where
  "update_multiple mm (Zeeman z) ps =
     and_then (ZeemanEnergy_update_multiple mm z ps) (\<lambda>z. Inr (Zeeman z))"
| "update_multiple mm (Dipolar d) ps =
     and_then (DipolarEnergy_update_multiple mm d ps) (\<lambda>d. Inr (Dipolar d))"
| "update_multiple mm (Exchange e) ps =
     and_then (ExchangeEnergy_update_multiple mm e ps) (\<lambda>e. Inr (Exchange e))"

text \<open>
  The scheduler's protocol: it switches one magnet and calls \<^verbatim>\<open>update_single\<close> for it,
  or switches a set of magnets at once and calls \<^verbatim>\<open>update_multiple\<close> for them; the
  switch is always applied to \<^verbatim>\<open>mm.m\<close> before the call.
\<close>

datatype switch = Single "nat \<times> nat" | Multiple "(nat \<times> nat) list"

fun apply_switch :: "switch \<Rightarrow> Magnets \<times> contribution \<Rightarrow> error + Magnets \<times> contribution" where
  "apply_switch (Single p) (mm, c) =
     and_then (update_single (switch_at [p] mm) c p) (\<lambda>c'. Inr (switch_at [p] mm, c'))"
| "apply_switch (Multiple ps) (mm, c) =
     and_then (update_multiple (switch_at ps mm) c ps) (\<lambda>c'. Inr (switch_at ps mm, c'))"

fun apply_switches ::
  "switch list \<Rightarrow> Magnets \<times> contribution \<Rightarrow> error + Magnets \<times> contribution" where
  "apply_switches [] s = Inr s"
| "apply_switches (sw # rest) s = and_then (apply_switch sw s) (apply_switches rest)"

text \<open>A run: \<^verbatim>\<open>initialize\<close>, then the switches of the scheduler one after the other.\<close>

definition run ::
  "Magnets \<Rightarrow> parameters \<Rightarrow> switch list \<Rightarrow> error + Magnets \<times> contribution" where
  "run mm params sws = and_then (initialize mm params) (\<lambda>c. apply_switches sws (mm, c))"


text \<open>
  Everything that can be reached from \<^verbatim>\<open>initialize\<close> by switches of the scheduler and
  calls of the update methods in any order, also against the protocol.
\<close>

inductive reachable :: "Magnets \<times> contribution \<Rightarrow> bool" where
  reach_initialize: "initialize mm params = Inr c \<Longrightarrow> reachable (mm, c)"
| reach_switch: "reachable (mm, c) \<Longrightarrow> reachable (switch_at ps mm, c)"
| reach_update: "reachable (mm, c) \<Longrightarrow> update mm c = Inr c' \<Longrightarrow> reachable (mm, c')"
| reach_update_single:
    "reachable (mm, c) \<Longrightarrow> update_single mm c p = Inr c' \<Longrightarrow> reachable (mm, c')"
| reach_update_multiple:
    "reachable (mm, c) \<Longrightarrow> update_multiple mm c ps = Inr c' \<Longrightarrow> reachable (mm, c')"
| reach_set_field:
    "reachable (mm, Zeeman z) \<Longrightarrow>
       reachable (mm, Zeeman (ZeemanEnergy_set_field mm z new_magnitude new_angle))"


section \<open>Hypotheses and observations\<close>

text \<open>The finite value behind an entry; zero stands in for the special values.\<close>

definition val :: "xreal \<Rightarrow> real" where
  "val v = (case v of Fin r \<Rightarrow> r | _ \<Rightarrow> 0)"

text \<open>Two grids agree inside the lattice.\<close>

definition same_grid :: "Magnets \<Rightarrow> xreal array2 \<Rightarrow> xreal array2 \<Rightarrow> bool" where
  "same_grid mm A B = (\<forall>y<ny mm. \<forall>x<nx mm. A y x = B y x)"

text \<open>
  The coordinate arrays are a mesh grid (\<^verbatim>\<open>xx\<close> constant along a column, \<^verbatim>\<open>yy\<close> along a
  row), and no other column or row has the coordinate of the first one.
\<close>

definition meshgrid_ok :: "Magnets \<Rightarrow> bool" where
  "meshgrid_ok mm =
     ((\<forall>a<ny mm. \<forall>b<nx mm. xx mm a b = xx mm 0 b \<and> yy mm a b = yy mm a 0)
      \<and> (\<forall>b<nx mm. 0 < b \<longrightarrow> xx mm 0 b \<noteq> xx mm 0 0)
      \<and> (\<forall>a<ny mm. 0 < a \<longrightarrow> yy mm a 0 \<noteq> yy mm 0 0))"

text \<open>A kernel all of whose entries are finite and whose centre entry is zero.\<close>

definition kernel_ok :: "Magnets \<Rightarrow> xreal array2 \<Rightarrow> bool" where
  "kernel_ok mm k =
     ((\<forall>i<2 * ny mm - 1. \<forall>j<2 * nx mm - 1. is_finite (k i j)) \<and> k (ny mm - 1) (nx mm - 1) = 0)"

text \<open>
  The object holds the kernels that \<^verbatim>\<open>_initialize\<close> builds for the lattice: the index of
  an empty cell is \<open>-1\<close>, the index of any other cell points at its three kernels.
\<close>

definition kernels_built :: "Magnets \<Rightarrow> DipolarEnergy \<Rightarrow> bool" where
  "kernels_built mm self =
     (0 < ny mm \<and> 0 < nx mm \<and> 0 < unitcell_y mm \<and> 0 < unitcell_x mm
      \<and> unitcell_y mm \<le> ny mm \<and> unitcell_x mm \<le> nx mm
      \<and> (\<forall>y<unitcell_y mm. \<forall>x<unitcell_x mm.
           if cell_empty mm y x then kernel_unitcell_indices self y x = - 1
           else 0 \<le> kernel_unitcell_indices self y x
              \<and> nat (kernel_unitcell_indices self y x) < length (kernel_unitcell self)
              \<and> nat (kernel_unitcell_indices self y x) < length (kernel_perpself_unitcell self)
              \<and> nat (kernel_unitcell_indices self y x) < length (kernel_perpother_unitcell self)
              \<and> kernel_unitcell self ! nat (kernel_unitcell_indices self y x)
                   = fst (kernels_at mm (decay_exponent self) y x)
              \<and> kernel_perpself_unitcell self ! nat (kernel_unitcell_indices self y x)
                   = fst (snd (kernels_at mm (decay_exponent self) y x))
              \<and> kernel_perpother_unitcell self ! nat (kernel_unitcell_indices self y x)
                   = snd (snd (kernels_at mm (decay_exponent self) y x))))"

text \<open>Entry \<open>(y, x)\<close> of the energy grids a sequence of calls ended with, if it did not raise.\<close>

definition E_entry :: "error + Magnets \<times> contribution \<Rightarrow> nat \<Rightarrow> nat \<Rightarrow> xreal option" where
  "E_entry r y x = (case r of Inl e \<Rightarrow> None | Inr s \<Rightarrow> Some (E_of (snd s) y x))"

definition E_perp_entry ::
  "error + Magnets \<times> contribution \<Rightarrow> nat \<Rightarrow> nat \<Rightarrow> xreal option" where
  "E_perp_entry r y x = (case r of Inl e \<Rightarrow> None | Inr s \<Rightarrow> Some (E_perp_of (snd s) y x))"


text \<open>Entry \<open>(i, j)\<close> of the \<open>n\<close>-th cached kernel of a result, if there is one.\<close>

definition kernel_entry :: "error + DipolarEnergy \<Rightarrow> nat \<Rightarrow> nat \<Rightarrow> nat \<Rightarrow> xreal option" where
  "kernel_entry r n i j =
     (case r of
        Inl e \<Rightarrow> None
      | Inr self \<Rightarrow>
          if n < length (kernel_unitcell self) then Some ((kernel_unitcell self ! n) i j)
          else None)"

text \<open>The distance of an index from the centre index of a mirrored array.\<close>

definition absdiff :: "nat \<Rightarrow> nat \<Rightarrow> nat" where
  "absdiff i c = (if i \<le> c then c - i else i - c)"


definition sites :: "Magnets \<Rightarrow> (nat \<times> nat) set" where
  "sites mm = {..<ny mm} \<times> {..<nx mm}"

definition cell :: "Magnets \<Rightarrow> nat \<times> nat \<Rightarrow> nat \<times> nat" where
  "cell mm p = (fst p mod unitcell_y mm, snd p mod unitcell_x mm)"

definition occupied :: "Magnets \<Rightarrow> nat \<times> nat \<Rightarrow> bool" where
  "occupied mm p = (\<not> cell_empty mm (fst p mod unitcell_y mm) (snd p mod unitcell_x mm))"

definition window :: "Magnets \<Rightarrow> xreal array2 \<Rightarrow> nat \<times> nat \<Rightarrow> nat \<times> nat \<Rightarrow> xreal" where
  "window mm k p q = k (ny mm - 1 - fst p + fst q) (nx mm - 1 - snd p + snd q)"

definition kernels_finite :: "Magnets \<Rightarrow> real \<Rightarrow> bool" where
  "kernels_finite mm de =
     (\<forall>y<unitcell_y mm. \<forall>x<unitcell_x mm.
        kernel_ok mm (fst (kernels_at mm de y x))
        \<and> kernel_ok mm (fst (snd (kernels_at mm de y x)))
        \<and> kernel_ok mm (snd (snd (kernels_at mm de y x))))"

text \<open>The three kernels of the cell of a site, and the finite couplings they hold.\<close>

definition K_normal :: "Magnets \<Rightarrow> real \<Rightarrow> nat \<times> nat \<Rightarrow> xreal array2" where
  "K_normal mm de p = fst (kernels_at mm de (fst p mod unitcell_y mm) (snd p mod unitcell_x mm))"

definition K_perpself :: "Magnets \<Rightarrow> real \<Rightarrow> nat \<times> nat \<Rightarrow> xreal array2" where
  "K_perpself mm de p =
     fst (snd (kernels_at mm de (fst p mod unitcell_y mm) (snd p mod unitcell_x mm)))"

definition K_perpother :: "Magnets \<Rightarrow> real \<Rightarrow> nat \<times> nat \<Rightarrow> xreal array2" where
  "K_perpother mm de p =
     snd (snd (kernels_at mm de (fst p mod unitcell_y mm) (snd p mod unitcell_x mm)))"

definition field :: "Magnets \<Rightarrow> xreal array2 \<Rightarrow> nat \<times> nat \<Rightarrow> real" where
  "field mm k p = (\<Sum>q\<in>sites mm. val (window mm k p q) * mmoment mm (fst q) (snd q))"

definition local_energy :: "Magnets \<Rightarrow> real \<Rightarrow> (nat \<times> nat \<Rightarrow> xreal array2) \<Rightarrow> nat \<times> nat \<Rightarrow> real" where
  "local_energy mm P K p =
     P * moment mm (fst p) (snd p)
       * (if occupied mm p then m mm (fst p) (snd p) * field mm (K p) p else 0)"

definition cell_term :: "Magnets \<Rightarrow> xreal array2 \<Rightarrow> nat \<times> nat \<Rightarrow> nat \<Rightarrow> nat \<Rightarrow> xreal" where
  "cell_term mm k c i j =
     (if cell_empty mm (fst c) (snd c) then 0
      else Fin (partial_m mm (fst c) (snd c) i j)
           * convolve2d_valid (reversed mm k) (ny mm, nx mm) (\<lambda>u v. Fin (mmoment mm u v)) i j)"

definition coupling :: "Magnets \<Rightarrow> xreal array2 \<Rightarrow> nat \<times> nat \<Rightarrow> nat \<times> nat \<Rightarrow> real" where
  "coupling mm k p q = val (window mm k p q)"

definition gm :: "Magnets \<Rightarrow> nat \<times> nat \<Rightarrow> real" where
  "gm mm p = mmoment mm (fst p) (snd p)"

definition batch_sum ::
  "Magnets \<Rightarrow> (nat \<times> nat \<Rightarrow> xreal array2) \<Rightarrow> (nat \<times> nat) list \<Rightarrow> nat \<times> nat \<Rightarrow> real" where
  "batch_sum mm K ps q =
     sum_list (map (\<lambda>p. if occupied mm p then gm mm p * coupling mm (K p) p q else 0) ps)"

definition group_term ::
  "Magnets \<Rightarrow> real \<Rightarrow> (nat \<Rightarrow> xreal array2) \<Rightarrow> (nat \<times> nat) list \<Rightarrow> nat \<Rightarrow> nat \<Rightarrow> nat \<Rightarrow> xreal" where
  "group_term mm P k_of ps i u v =
     (if cell_empty mm (i div unitcell_x mm) (i mod unitcell_x mm) then 0
      else Fin 2 * (Fin P * (Fin (mmoment mm u v)
             * convolvedkernel mm (k_of i) (filter (\<lambda>p. raveled mm p = i) ps) u v)))"

text \<open>
  The convolution branch of \<^verbatim>\<open>update_multiple\<close> works on the whole kernel when
  \<^verbatim>\<open>REDUCED_KERNEL_SIZE\<close> is zero or reaches the lattice size. A batch is handled exactly
  when it stays on the direct-sum branch, or when the convolution is taken with the whole
  kernel, without periodic wrapping, over distinct magnets of unit moment.
\<close>

definition full_kernel :: "Magnets \<Rightarrow> bool" where
  "full_kernel mm =
     (REDUCED_KERNEL_SIZE mm = 0
      \<or> (ny mm - 1 \<le> REDUCED_KERNEL_SIZE mm \<and> nx mm - 1 \<le> REDUCED_KERNEL_SIZE mm))"

definition exact_batch :: "Magnets \<Rightarrow> (nat \<times> nat) list \<Rightarrow> bool" where
  "exact_batch mm ps =
     (length ps \<le> SIMULTANEOUS_SWITCHES_CONVOLUTION_OR_SUM_CUTOFF mm
      \<or> (\<not> PBC mm \<and> full_kernel mm \<and> distinct ps
          \<and> (\<forall>p\<in>set ps. moment mm (fst p) (snd p) = 1)))"

text \<open>The same lattice with another batch-size threshold.\<close>

definition with_cutoff :: "nat \<Rightarrow> Magnets \<Rightarrow> Magnets" where
  "with_cutoff c mm = mm\<lparr>SIMULTANEOUS_SWITCHES_CONVOLUTION_OR_SUM_CUTOFF := c\<rparr>"


text \<open>The formula of \<open>dipole_kernel\<close> at one entry, on finite values.\<close>

definition dipole_value ::
  "real \<Rightarrow> real \<Rightarrow> real \<Rightarrow> real \<Rightarrow> real \<Rightarrow> real \<Rightarrow> real \<Rightarrow> real" where
  "dipole_value ox1 oy1 ox2 oy2 vx vy vr =
     - (ox1 * ox2 * (3 * (vx * vx) - 1) + oy1 * oy2 * (3 * (vy * vy) - 1)
        + 3 * (vx * vy) * (ox1 * oy2 + oy1 * ox2)) * vr"



text \<open>
  The lattices on which the kernels of two magnets agree with each other: a mesh grid, a
  periodic lattice that holds whole unit cells only, and an occupation of zero or one on an
  out-of-plane lattice.
\<close>

definition lattice_ok :: "Magnets \<Rightarrow> bool" where
  "lattice_ok mm =
     (meshgrid_ok mm
      \<and> (PBC mm \<longrightarrow> unitcell_y mm dvd ny mm \<and> unitcell_x mm dvd nx mm)
      \<and> (\<not> in_plane mm \<longrightarrow>
           (\<forall>y<unitcell_y mm. \<forall>x<unitcell_x mm. occupation mm y x = 0 \<or> occupation mm y x = 1)))"


text \<open>
  The switches a contribution handles exactly: sites inside the lattice where the
  contribution indexes its grids, and for the dipolar contribution batches of distinct
  sites that are handled exactly.
\<close>

fun valid_switch :: "Magnets \<Rightarrow> parameters \<Rightarrow> switch \<Rightarrow> bool" where
  "valid_switch mm (ExchangeParams J0) sw = True"
| "valid_switch mm (ZeemanParams magnitude0 angle0) (Single p) = in_shape (ny mm) (nx mm) p"
| "valid_switch mm (ZeemanParams magnitude0 angle0) (Multiple ps) =
     (\<forall>p\<in>set ps. in_shape (ny mm) (nx mm) p)"
| "valid_switch mm (DipolarParams prefactor0 decay_exponent0) (Single p) =
     in_shape (ny mm) (nx mm) p"
| "valid_switch mm (DipolarParams prefactor0 decay_exponent0) (Multiple ps) =
     ((\<forall>p\<in>set ps. in_shape (ny mm) (nx mm) p) \<and> distinct ps \<and> exact_batch mm ps)"


text \<open>
  \<^verbatim>\<open>xp.roll(A, (sy, sx), axis=(0, 1))\<close> on a grid of \<open>h\<close> rows and \<open>w\<close> columns: the entry at
  \<open>(y, x)\<close> moves to \<open>((y + sy) mod h, (x + sx) mod w)\<close>.
\<close>

definition roll2 :: "nat \<Rightarrow> nat \<Rightarrow> nat \<Rightarrow> nat \<Rightarrow> real array2 \<Rightarrow> real array2" where
  "roll2 h w sy sx A = (\<lambda>y x. A ((y + h - sy mod h) mod h) ((x + w - sx mod w) mod w))"

text \<open>
  The lattice with its spin configuration shifted cyclically: the magnetisation and the
  moments are rolled, the geometry (positions, orientations, occupation, unit cell) stays.
\<close>

definition shifted :: "nat \<Rightarrow> nat \<Rightarrow> Magnets \<Rightarrow> Magnets" where
  "shifted sy sx mm = mm\<lparr>m := roll2 (ny mm) (nx mm) sy sx (m mm),
                         moment := roll2 (ny mm) (nx mm) sy sx (moment mm)\<rparr>"


section \<open>Example lattices\<close>

text \<open>
  Small lattices on which the theorems below are instantiated. \<open>square_oop h w\<close> is an
  out-of-plane square lattice of \<open>h\<close> rows and \<open>w\<close> columns with unit spacing, one magnet
  per cell, unit moments, all spins up, open boundaries and the four-neighbour stencil.
\<close>

definition square_oop :: "nat \<Rightarrow> nat \<Rightarrow> Magnets" where
  "square_oop h w =
     \<lparr>ny = h, nx = w, in_plane = False, PBC = False, USE_PERP_ENERGY = True,
      m = (\<lambda>y x. 1), moment = (\<lambda>y x. 1),
      xx = (\<lambda>y x. real x), yy = (\<lambda>y x. real y),
      orientation = (\<lambda>y x c. 0), occupation = (\<lambda>y x. 1),
      unitcell_y = 1, unitcell_x = 1,
      SIMULTANEOUS_SWITCHES_CONVOLUTION_OR_SUM_CUTOFF = 20, REDUCED_KERNEL_SIZE = 20,
      nearest_neighbors_shape = (3, 3),
      nearest_neighbors = (\<lambda>a b. if (a + b) mod 2 = 1 then 1 else 0)\<rparr>"

text \<open>
  A row of three out-of-plane magnets with the batch-size threshold \<open>c\<close>; the convolution
  branch works on the kernel cut to the nearest neighbours.
\<close>

definition chain3 :: "nat \<Rightarrow> Magnets" where
  "chain3 c = (square_oop 1 3)\<lparr>SIMULTANEOUS_SWITCHES_CONVOLUTION_OR_SUM_CUTOFF := c,
                                REDUCED_KERNEL_SIZE := 1\<rparr>"

text \<open>
  A row of two cells with a unit cell of two columns, the second of which holds no magnet.
\<close>

definition half_filled :: Magnets where
  "half_filled = (square_oop 1 2)\<lparr>m := (\<lambda>y x. if even x then 1 else 0),
                                  occupation := (\<lambda>y x. if even x then 1 else 0),
                                  unitcell_x := 2\<rparr>"

text \<open>
  A periodic row of \<open>w\<close> in-plane magnets with a unit cell of two columns: the magnets of
  the even columns lie along \<open>x\<close>, those of the odd columns along \<open>y\<close>; all spins are up
  but the one of column 1.
\<close>

definition ring :: "nat \<Rightarrow> Magnets" where
  "ring w = (square_oop 1 w)\<lparr>in_plane := True, PBC := True, USE_PERP_ENERGY := False,
                            m := (\<lambda>y x. if x = 1 then - 1 else 1),
                            orientation := (\<lambda>y x c. if even (x + c) then 1 else 0),
                            unitcell_x := 2\<rparr>"


section \<open>Arithmetic with the special values\<close>

lemma sum_Fin: "(\<Sum>i\<in>A. Fin (f i)) = Fin (\<Sum>i\<in>A. f i)"
proof (cases "finite A")
  case True
  then show ?thesis
    by (induction A rule: finite_induct) (simp_all add: zero_xreal_def)
next
  case False
  then show ?thesis by (simp add: zero_xreal_def)
qed

lemma xp_sum_Fin: "xp_sum h w (\<lambda>y x. Fin (e y x)) = Fin (\<Sum>y<h. \<Sum>x<w. e y x)"
  by (simp add: xp_sum_def sum_Fin)


section \<open>Reading energies\<close>

text \<open>
  Claim C9. For every contribution (any extension of the \<open>Energy\<close> record) and every list
  of candidate magnets inside the lattice, \<open>energy_switch\<close> returns \<open>-2\<close> times the
  current entry of \<open>E\<close> for each of them, in the order of the input, and the object it
  returns is the one it was given: nothing is mutated.
\<close>

theorem energy_switch_sampled:
  assumes "\<forall>p \<in> set ps. in_shape (ny mm) (nx mm) p"
  shows "energy_switch mm self (Some ps)
           = Inr (self, Sampled (map (\<lambda>p. Fin (- 2) * E self (fst p) (snd p)) ps))"
  using assms by (simp add: energy_switch_def case_prod_beta)

theorem energy_switch_sampled_witness:
  "in_shape (ny (square_oop 2 2)) (nx (square_oop 2 2)) (1, 0)
   \<and> in_shape (ny (square_oop 2 2)) (nx (square_oop 2 2)) (0, 1)
   \<and> energy_switch (square_oop 2 2)
        \<lparr>E = (\<lambda>y x. Fin (real y + 10 * real x)), E_perp = (\<lambda>y x. 0)\<rparr>
        (Some [(1, 0), (0, 1), (1, 0)])
      = Inr (\<lparr>E = (\<lambda>y x. Fin (real y + 10 * real x)), E_perp = (\<lambda>y x. 0)\<rparr>,
             Sampled [Fin (- 2), Fin (- 20), Fin (- 2)])"
proof -
  have inside: "\<forall>p \<in> set [(1, 0), (0, 1), (1, 0)].
                  in_shape (ny (square_oop 2 2)) (nx (square_oop 2 2)) p"
    by (simp add: in_shape_def square_oop_def)
  show ?thesis
    using inside energy_switch_sampled [OF inside,
      of "\<lparr>E = (\<lambda>y x. Fin (real y + 10 * real x)), E_perp = (\<lambda>y x. 0)\<rparr>"]
    by simp
qed

text \<open>
  Claim C10. With \<^verbatim>\<open>indices2D\<close> omitted, \<open>energy_switch\<close> returns \<open>-2\<close> times the whole
  grid \<open>E\<close>, and returns the object unchanged.
\<close>

theorem energy_switch_whole:
  "energy_switch mm self None = Inr (self, Whole (\<lambda>y x. Fin (- 2) * E self y x))"
  by (simp add: energy_switch_def)

theorem energy_switch_whole_witness:
  "energy_switch (square_oop 2 2)
     \<lparr>E = (\<lambda>y x. Fin (real y + 10 * real x)), E_perp = (\<lambda>y x. 0)\<rparr> None
   = Inr (\<lparr>E = (\<lambda>y x. Fin (real y + 10 * real x)), E_perp = (\<lambda>y x. 0)\<rparr>,
          Whole (\<lambda>y x. Fin (- 2 * (real y + 10 * real x))))"
  using energy_switch_whole [of "square_oop 2 2"
      "\<lparr>E = (\<lambda>y x. Fin (real y + 10 * real x)), E_perp = (\<lambda>y x. 0)\<rparr>"]
  by simp

text \<open>
  Claim C5. Whatever the grid \<open>E\<close> holds, the total of the dipolar and of the exchange
  contribution is the sum of all entries of \<open>E\<close> divided by two, and the total of the
  Zeeman contribution is that sum itself. For a grid of finite entries the halved sum is
  the finite number one expects (lemma \<open>xp_sum_Fin\<close>).
\<close>

theorem E_tot_counting:
  "DipolarEnergy_E_tot mm dip = xp_sum (ny mm) (nx mm) (E dip) / Fin 2
   \<and> ExchangeEnergy_E_tot mm exc = xp_sum (ny mm) (nx mm) (E exc) / Fin 2
   \<and> ZeemanEnergy_E_tot mm zee = xp_sum (ny mm) (nx mm) (E zee)"
  by (simp add: DipolarEnergy_E_tot_def ExchangeEnergy_E_tot_def ZeemanEnergy_E_tot_def)


section \<open>Kernels and closed forms of the updates\<close>

lemma build_kernels_lengths:
  assumes "build_kernels mm de cells (idx, ks, kself, kother) = (idx', ks', kself', kother')"
    and "length kself = length ks" and "length kother = length ks"
  shows "length kself' = length ks' \<and> length kother' = length ks' \<and> length ks \<le> length ks'"
  using assms
proof (induction cells arbitrary: idx ks kself kother)
  case Nil
  then show ?case by simp
next
  case (Cons c cells)
  obtain y x where c: "c = (y, x)" by (cases c)
  show ?case
  proof (cases "cell_empty mm y x")
    case True
    with Cons.prems c show ?thesis using Cons.IH by simp
  next
    case False
    with Cons.prems c have
      "build_kernels mm de cells
         (idx(y := (idx y)(x := int (length ks))), ks @ [fst (kernels_at mm de y x)],
          kself @ [fst (snd (kernels_at mm de y x))], kother @ [snd (snd (kernels_at mm de y x))])
       = (idx', ks', kself', kother')"
      by simp
    from Cons.IH [OF this] Cons.prems(2,3) show ?thesis by simp
  qed
qed

lemma build_kernels_keeps:
  assumes "build_kernels mm de cells (idx, ks, kself, kother) = (idx', ks', kself', kother')"
    and "length kself = length ks" and "length kother = length ks" and "n < length ks"
  shows "ks' ! n = ks ! n \<and> kself' ! n = kself ! n \<and> kother' ! n = kother ! n"
  using assms
proof (induction cells arbitrary: idx ks kself kother)
  case Nil
  then show ?case by simp
next
  case (Cons c cells)
  obtain y x where c: "c = (y, x)" by (cases c)
  show ?case
  proof (cases "cell_empty mm y x")
    case True
    with Cons.prems c show ?thesis using Cons.IH by simp
  next
    case False
    with Cons.prems c have
      "build_kernels mm de cells
         (idx(y := (idx y)(x := int (length ks))), ks @ [fst (kernels_at mm de y x)],
          kself @ [fst (snd (kernels_at mm de y x))], kother @ [snd (snd (kernels_at mm de y x))])
       = (idx', ks', kself', kother')"
      by simp
    from Cons.IH [OF this] Cons.prems(2,3,4) show ?thesis by (simp add: nth_append)
  qed
qed

lemma build_kernels_untouched:
  assumes "build_kernels mm de cells (idx, ks, kself, kother) = (idx', ks', kself', kother')"
    and "(y, x) \<notin> set cells \<or> cell_empty mm y x"
  shows "idx' y x = idx y x"
  using assms
proof (induction cells arbitrary: idx ks kself kother)
  case Nil
  then show ?case by simp
next
  case (Cons c cells)
  obtain cy cx where c: "c = (cy, cx)" by (cases c)
  show ?case
  proof (cases "cell_empty mm cy cx")
    case True
    with Cons.prems c show ?thesis using Cons.IH by auto
  next
    case False
    with Cons.prems c have b:
      "build_kernels mm de cells
         (idx(cy := (idx cy)(cx := int (length ks))), ks @ [fst (kernels_at mm de cy cx)],
          kself @ [fst (snd (kernels_at mm de cy cx))], kother @ [snd (snd (kernels_at mm de cy cx))])
       = (idx', ks', kself', kother')"
      by simp
    from Cons.prems(2) c False have ne: "(y, x) \<noteq> (cy, cx)" and rest: "(y, x) \<notin> set cells \<or> cell_empty mm y x"
      by auto
    from Cons.IH [OF b rest] ne show ?thesis by auto
  qed
qed

lemma build_kernels_found:
  assumes "build_kernels mm de cells (idx, ks, kself, kother) = (idx', ks', kself', kother')"
    and "length kself = length ks" and "length kother = length ks"
    and "distinct cells" and "(y, x) \<in> set cells" and "\<not> cell_empty mm y x"
  shows "0 \<le> idx' y x \<and> nat (idx' y x) < length ks'
         \<and> ks' ! nat (idx' y x) = fst (kernels_at mm de y x)
         \<and> kself' ! nat (idx' y x) = fst (snd (kernels_at mm de y x))
         \<and> kother' ! nat (idx' y x) = snd (snd (kernels_at mm de y x))"
  using assms
proof (induction cells arbitrary: idx ks kself kother)
  case Nil
  then show ?case by simp
next
  case (Cons c cells)
  obtain cy cx where c: "c = (cy, cx)" by (cases c)
  show ?case
  proof (cases "cell_empty mm cy cx")
    case True
    with Cons.prems c have "(y, x) \<in> set cells" by auto
    with True Cons.prems c show ?thesis using Cons.IH by simp
  next
    case False
    let ?idx = "idx(cy := (idx cy)(cx := int (length ks)))"
    let ?ks = "ks @ [fst (kernels_at mm de cy cx)]"
    let ?kself = "kself @ [fst (snd (kernels_at mm de cy cx))]"
    let ?kother = "kother @ [snd (snd (kernels_at mm de cy cx))]"
    from False Cons.prems c have b:
      "build_kernels mm de cells (?idx, ?ks, ?kself, ?kother) = (idx', ks', kself', kother')"
      by simp
    have len: "length ?kself = length ?ks" "length ?kother = length ?ks"
      using Cons.prems(2,3) by simp_all
    show ?thesis
    proof (cases "(y, x) = (cy, cx)")
      case True
      with Cons.prems(4) c have "(y, x) \<notin> set cells" by auto
      then have "idx' y x = ?idx y x"
        using build_kernels_untouched [OF b] by blast
      with True have i: "idx' y x = int (length ks)" by simp
      have "length ks < length ?ks" by simp
      from build_kernels_keeps [OF b len this] build_kernels_lengths [OF b len]
      show ?thesis using i True Cons.prems(2,3) by (simp add: nth_append)
    next
      case False
      with Cons.prems c have "(y, x) \<in> set cells" by auto
      from Cons.IH [OF b len _ this Cons.prems(6)] Cons.prems(4) show ?thesis by simp
    qed
  qed
qed

lemma val_Fin [simp]: "val (Fin r) = r"
  by (simp add: val_def)

lemma is_finite_Fin [simp]: "is_finite (Fin r)"
  by (simp add: is_finite_def)

lemma is_finite_simps [simp]: "\<not> is_finite PInf" "\<not> is_finite NInf" "\<not> is_finite NaN"
  by (simp_all add: is_finite_def)

lemma is_finite_val: "is_finite v \<Longrightarrow> v = Fin (val v)"
  by (cases v) simp_all

lemma is_finite_iff: "is_finite v \<longleftrightarrow> (\<exists>r. v = Fin r)"
  by (cases v) simp_all

lemma is_finite_zero [simp]: "is_finite 0"
  by (simp add: zero_xreal_def)

lemma is_finite_add: "is_finite a \<Longrightarrow> is_finite b \<Longrightarrow> is_finite (a + b)"
  by (auto simp: is_finite_iff)

lemma is_finite_mult: "is_finite a \<Longrightarrow> is_finite b \<Longrightarrow> is_finite (a * b)"
  by (auto simp: is_finite_iff)

lemma is_finite_uminus: "is_finite a \<Longrightarrow> is_finite (- a)"
  by (auto simp: is_finite_iff)

lemma is_finite_diff: "is_finite a \<Longrightarrow> is_finite b \<Longrightarrow> is_finite (a - b)"
  by (auto simp: is_finite_iff minus_xreal_def)

lemma Fin_diff [simp]: "Fin a - Fin b = Fin (a - b)"
  by (simp add: minus_xreal_def)

lemma val_zero [simp]: "val 0 = 0"
  by (simp add: zero_xreal_def)

lemma meshgrid_xx: "meshgrid_ok mm \<Longrightarrow> a < ny mm \<Longrightarrow> b < nx mm \<Longrightarrow> xx mm a b = xx mm 0 b"
  unfolding meshgrid_ok_def by blast

lemma meshgrid_yy: "meshgrid_ok mm \<Longrightarrow> a < ny mm \<Longrightarrow> b < nx mm \<Longrightarrow> yy mm a b = yy mm a 0"
  unfolding meshgrid_ok_def by blast

lemma meshgrid_xx_distinct: "meshgrid_ok mm \<Longrightarrow> b < nx mm \<Longrightarrow> 0 < b \<Longrightarrow> xx mm 0 b \<noteq> xx mm 0 0"
  unfolding meshgrid_ok_def by blast

lemma meshgrid_yy_distinct: "meshgrid_ok mm \<Longrightarrow> a < ny mm \<Longrightarrow> 0 < a \<Longrightarrow> yy mm a 0 \<noteq> yy mm 0 0"
  unfolding meshgrid_ok_def by blast

lemma rr_sq_pos:
  assumes "meshgrid_ok mm" "a < ny mm" "b < nx mm" "a \<noteq> 0 \<or> b \<noteq> 0"
  shows "0 < (rrx mm a b)\<^sup>2 + (rry mm a b)\<^sup>2"
proof -
  have eq: "rrx mm a b = xx mm 0 b - xx mm 0 0" "rry mm a b = yy mm a 0 - yy mm 0 0"
    using meshgrid_xx [OF assms(1,2,3)] meshgrid_yy [OF assms(1,2,3)]
    by (simp_all only: rrx_def rry_def)
  from assms(4) show ?thesis
  proof
    assume "a \<noteq> 0"
    then have "yy mm a 0 \<noteq> yy mm 0 0" using meshgrid_yy_distinct [OF assms(1,2)] by simp
    then have "0 < (rry mm a b)\<^sup>2" unfolding eq by simp
    then show ?thesis by (simp add: add_nonneg_pos)
  next
    assume "b \<noteq> 0"
    then have "xx mm 0 b \<noteq> xx mm 0 0" using meshgrid_xx_distinct [OF assms(1,3)] by simp
    then have "0 < (rrx mm a b)\<^sup>2" unfolding eq by simp
    then show ?thesis by (simp add: add_pos_nonneg)
  qed
qed

lemma rr_inv_origin: "rr_inv mm 0 0 = 0"
  by (simp add: rr_inv_def rr_sq_def xpow_def zero_xreal_def)

lemma rr_inv_finite:
  assumes "meshgrid_ok mm" "a < ny mm" "b < nx mm"
  shows "is_finite (rr_inv mm a b)"
proof (cases "a = 0 \<and> b = 0")
  case True
  then show ?thesis by (simp add: rr_inv_origin)
next
  case False
  then have "0 < (rrx mm a b)\<^sup>2 + (rry mm a b)\<^sup>2"
    using rr_sq_pos [OF assms] by blast
  with False show ?thesis by (simp add: rr_inv_def rr_sq_def xpow_def)
qed

lemma rr_inv_pos:
  assumes "meshgrid_ok mm" "a < ny mm" "b < nx mm" "a \<noteq> 0 \<or> b \<noteq> 0"
  shows "\<exists>r. 0 < r \<and> rr_inv mm a b = Fin r"
proof -
  have "0 < (rrx mm a b)\<^sup>2 + (rry mm a b)\<^sup>2"
    using rr_sq_pos [OF assms] .
  with assms(4) show ?thesis by (auto simp add: rr_inv_def rr_sq_def xpow_def)
qed

lemma rr_inv3_origin: "de < 0 \<Longrightarrow> rr_inv3 mm de 0 0 = 0"
  by (simp add: rr_inv3_def rr_inv_origin xpow_def zero_xreal_def)

lemma rr_inv3_finite:
  assumes "meshgrid_ok mm" "a < ny mm" "b < nx mm" "de < 0"
  shows "is_finite (rr_inv3 mm de a b)"
proof (cases "a = 0 \<and> b = 0")
  case True
  with assms(4) show ?thesis by (simp add: rr_inv3_origin)
next
  case False
  then obtain r where "0 < r" "rr_inv mm a b = Fin r"
    using rr_inv_pos [OF assms(1,2,3)] by blast
  then show ?thesis by (simp add: rr_inv3_def xpow_def)
qed

text \<open>mirror4 in one formula\<close>

lemma Fin_one_mult [simp]: "Fin 1 * v = v"
  by (cases v) simp_all

lemma mirror4_eq:
  "mirror4 h w arr sx sy i j =
     Fin ((if sx \<and> j \<le> w - 1 then - 1 else 1) * (if sy \<and> i \<le> h - 1 then - 1 else 1))
       * arr (absdiff i (h - 1)) (absdiff j (w - 1))"
proof (cases "i \<le> h - 1")
  case i: True
  show ?thesis
  proof (cases "j \<le> w - 1")
    case True
    with i show ?thesis by (simp add: mirror4_def absdiff_def Let_def)
  next
    case False
    with i show ?thesis by (simp add: mirror4_def absdiff_def Let_def)
  qed
next
  case i: False
  show ?thesis
  proof (cases "j \<le> w - 1")
    case True
    with i show ?thesis by (simp add: mirror4_def absdiff_def Let_def)
  next
    case False
    with i show ?thesis by (simp add: mirror4_def absdiff_def Let_def)
  qed
qed

lemma absdiff_less: "0 < h \<Longrightarrow> i < 2 * h - 1 \<Longrightarrow> absdiff i (h - 1) < h"
  by (auto simp: absdiff_def)


lemma absdiff_centre [simp]: "absdiff c c = 0"
  by (simp add: absdiff_def)

lemma mirror4_finite:
  assumes fin: "\<And>a b. a < h \<Longrightarrow> b < w \<Longrightarrow> is_finite (arr a b)"
    and "0 < h" "0 < w" "i < 2 * h - 1" "j < 2 * w - 1"
  shows "is_finite (mirror4 h w arr sx sy i j)"
proof -
  have "absdiff i (h - 1) < h" "absdiff j (w - 1) < w"
    using assms(2-5) absdiff_less [of h i] absdiff_less [of w j] by blast+
  then have "is_finite (arr (absdiff i (h - 1)) (absdiff j (w - 1)))"
    by (rule fin)
  then show ?thesis
    unfolding mirror4_eq by (rule is_finite_mult [OF is_finite_Fin])
qed

lemma mult_zero_finite: "is_finite a \<Longrightarrow> a * 0 = (0::xreal)"
  by (auto simp: is_finite_iff zero_xreal_def)

lemma zero_mult_finite: "is_finite a \<Longrightarrow> 0 * a = (0::xreal)"
  by (auto simp: is_finite_iff zero_xreal_def)

lemma uminus_zero_xreal [simp]: "- (0::xreal) = 0"
  by (simp add: zero_xreal_def)

lemma add_zero_xreal [simp]: "a + (0::xreal) = a"
  by (simp add: add.commute [of a 0])

lemma ux_arr_finite:
  assumes "meshgrid_ok mm" "a < ny mm" "b < nx mm"
  shows "is_finite (Fin (rrx mm a b) * rr_inv mm a b)" "is_finite (Fin (rry mm a b) * rr_inv mm a b)"
  using rr_inv_finite [OF assms] by (simp_all add: is_finite_mult)

lemma ux_finite:
  assumes "meshgrid_ok mm" "0 < ny mm" "0 < nx mm" "i < 2 * ny mm - 1" "j < 2 * nx mm - 1"
  shows "is_finite (ux mm i j)"
  unfolding ux_def using assms by (intro mirror4_finite ux_arr_finite) simp_all

lemma uy_finite:
  assumes "meshgrid_ok mm" "0 < ny mm" "0 < nx mm" "i < 2 * ny mm - 1" "j < 2 * nx mm - 1"
  shows "is_finite (uy mm i j)"
  unfolding uy_def using assms by (intro mirror4_finite ux_arr_finite) simp_all

lemma rinv3_finite:
  assumes "meshgrid_ok mm" "0 < ny mm" "0 < nx mm" "i < 2 * ny mm - 1" "j < 2 * nx mm - 1" "de < 0"
  shows "is_finite (rinv3 mm de i j)"
  unfolding rinv3_def using assms by (intro mirror4_finite rr_inv3_finite) simp_all

lemma rinv3_centre: "de < 0 \<Longrightarrow> rinv3 mm de (ny mm - 1) (nx mm - 1) = 0"
  by (simp add: rinv3_def mirror4_eq rr_inv3_origin)

lemma dipole_kernel_finite:
  assumes "is_finite (u i j)" "is_finite (v i j)" "is_finite (r i j)"
  shows "is_finite (dipole_kernel ox1 oy1 ox2 oy2 u v r i j)"
  using assms by (auto simp: is_finite_iff dipole_kernel_def Let_def)

lemma dipole_kernel_zero:
  assumes "is_finite (u i j)" "is_finite (v i j)" "r i j = 0"
  shows "dipole_kernel ox1 oy1 ox2 oy2 u v r i j = 0"
  using assms by (auto simp: is_finite_iff dipole_kernel_def Let_def zero_xreal_def)

lemma apply_PBC_centre:
  assumes "0 < h" "0 < w"
  shows "apply_PBC h w k (h - 1) (w - 1) = k (h - 1) (w - 1)"
proof -
  have "\<not> h \<le> h - 1" "\<not> w \<le> w - 1" using assms by arith+
  then show ?thesis by (simp add: apply_PBC_def)
qed

lemma apply_PBC_finite:
  assumes fin: "\<And>a b. a < 2 * h - 1 \<Longrightarrow> b < 2 * w - 1 \<Longrightarrow> is_finite (k a b)"
    and "i < 2 * h - 1" "j < 2 * w - 1"
  shows "is_finite (apply_PBC h w k i j)"
  unfolding apply_PBC_def using assms(2,3)
  by (intro is_finite_add) (auto intro!: fin)

lemma kernel_okI:
  assumes "\<And>i j. i < 2 * ny mm - 1 \<Longrightarrow> j < 2 * nx mm - 1 \<Longrightarrow> is_finite (k i j)"
    and "k (ny mm - 1) (nx mm - 1) = 0"
  shows "kernel_ok mm k"
  using assms by (simp add: kernel_ok_def)

lemma kernel_ok_PBC:
  assumes "kernel_ok mm k" "0 < ny mm" "0 < nx mm"
  shows "kernel_ok mm (apply_PBC (ny mm) (nx mm) k)"
proof (rule kernel_okI)
  fix i j assume "i < 2 * ny mm - 1" "j < 2 * nx mm - 1"
  then show "is_finite (apply_PBC (ny mm) (nx mm) k i j)"
    using assms(1) by (intro apply_PBC_finite) (simp_all add: kernel_ok_def)
next
  show "apply_PBC (ny mm) (nx mm) k (ny mm - 1) (nx mm - 1) = 0"
    using assms(1) unfolding apply_PBC_centre [OF assms(2,3)] by (simp add: kernel_ok_def)
qed

lemma kernel_ok_scale:
  assumes "kernel_ok mm k"
  shows "kernel_ok mm (\<lambda>i j. k i j * Fin c)"
proof (rule kernel_okI)
  fix i j assume "i < 2 * ny mm - 1" "j < 2 * nx mm - 1"
  with assms have "is_finite (k i j)" by (simp add: kernel_ok_def)
  then show "is_finite (k i j * Fin c)" by (rule is_finite_mult) simp
next
  from assms have "k (ny mm - 1) (nx mm - 1) = 0" by (simp add: kernel_ok_def)
  then show "k (ny mm - 1) (nx mm - 1) * Fin c = 0" by (simp add: zero_xreal_def)
qed

lemma kernel_ok_dipole:
  assumes "meshgrid_ok mm" "0 < ny mm" "0 < nx mm" "de < 0"
  shows "kernel_ok mm (dipole_kernel ox1 oy1 ox2 oy2 (ux mm) (uy mm) (rinv3 mm de))"
proof (rule kernel_okI)
  fix i j assume ij: "i < 2 * ny mm - 1" "j < 2 * nx mm - 1"
  show "is_finite (dipole_kernel ox1 oy1 ox2 oy2 (ux mm) (uy mm) (rinv3 mm de) i j)"
    by (intro dipole_kernel_finite ux_finite uy_finite rinv3_finite assms ij)
next
  have c: "ny mm - 1 < 2 * ny mm - 1" "nx mm - 1 < 2 * nx mm - 1"
    using assms(2,3) by simp_all
  show "dipole_kernel ox1 oy1 ox2 oy2 (ux mm) (uy mm) (rinv3 mm de) (ny mm - 1) (nx mm - 1) = 0"
    by (intro dipole_kernel_zero ux_finite uy_finite rinv3_centre assms c)
qed

lemma kernel_ok_oop:
  assumes "meshgrid_ok mm" "0 < ny mm" "0 < nx mm" "de < 0"
  shows "kernel_ok mm (\<lambda>i j. Fin (o2 i j) * rinv3 mm de i j)"
proof (rule kernel_okI)
  fix i j assume ij: "i < 2 * ny mm - 1" "j < 2 * nx mm - 1"
  show "is_finite (Fin (o2 i j) * rinv3 mm de i j)"
    by (intro is_finite_mult is_finite_Fin rinv3_finite assms ij)
next
  show "Fin (o2 (ny mm - 1) (nx mm - 1)) * rinv3 mm de (ny mm - 1) (nx mm - 1) = 0"
    unfolding rinv3_centre [OF assms(4)] by (simp add: zero_xreal_def)
qed

lemma kernel_ok_zero: "kernel_ok mm (\<lambda>i j. 0)"
  by (simp add: kernel_ok_def)

lemma kernels_at_ok:
  assumes "meshgrid_ok mm" "0 < ny mm" "0 < nx mm" "de < 0"
  shows "kernel_ok mm (fst (kernels_at mm de y x))"
    and "kernel_ok mm (fst (snd (kernels_at mm de y x)))"
    and "kernel_ok mm (snd (snd (kernels_at mm de y x)))"
  using assms
  by (simp_all add: kernels_at_def Let_def kernel_ok_scale kernel_ok_PBC kernel_ok_dipole
      kernel_ok_oop kernel_ok_zero)

lemma build_kernels_set:
  assumes "build_kernels mm de cells (idx, ks, kself, kother) = (idx', ks', kself', kother')"
  shows "set ks' \<subseteq> set ks \<union> (\<lambda>c. fst (kernels_at mm de (fst c) (snd c))) ` set cells"
    and "set kself' \<subseteq> set kself \<union> (\<lambda>c. fst (snd (kernels_at mm de (fst c) (snd c)))) ` set cells"
    and "set kother' \<subseteq> set kother \<union> (\<lambda>c. snd (snd (kernels_at mm de (fst c) (snd c)))) ` set cells"
  using assms
proof (induction cells arbitrary: idx ks kself kother)
  case Nil
  { case 1 then show ?case by simp }
  { case 2 then show ?case by simp }
  { case 3 then show ?case by simp }
next
  case (Cons c cells)
  obtain cy cx where c: "c = (cy, cx)" by (cases c)
  { case 1
    then show ?case using Cons.IH(1) c
      by (cases "cell_empty mm cy cx") (fastforce split: if_splits)+ }
  { case 2
    then show ?case using Cons.IH(2) c
      by (cases "cell_empty mm cy cx") (fastforce split: if_splits)+ }
  { case 3
    then show ?case using Cons.IH(3) c
      by (cases "cell_empty mm cy cx") (fastforce split: if_splits)+ }
qed

lemma initialize_Inr:
  assumes "DipolarEnergy__initialize mm self0 = Inr self"
  shows "0 < ny mm \<and> 0 < nx mm \<and> 0 < unitcell_y mm \<and> 0 < unitcell_x mm
         \<and> unitcell_y mm \<le> ny mm \<and> unitcell_x mm \<le> nx mm"
    and "\<exists>idx ks kself kother.
           build_kernels mm (decay_exponent self0) (unitcell_cells mm) ((\<lambda>y x. - 1), [], [], [])
             = (idx, ks, kself, kother)
           \<and> self = self0\<lparr>kernel_unitcell_indices := idx, kernel_unitcell := ks,
                           kernel_perpself_unitcell := kself,
                           kernel_perpother_unitcell := kother\<rparr>"
  using assms
  by (auto simp: DipolarEnergy__initialize_def split: if_splits prod.splits)

lemma initialize_succeeds:
  assumes "0 < ny mm" "0 < nx mm" "0 < unitcell_y mm" "0 < unitcell_x mm"
    "unitcell_y mm \<le> ny mm" "unitcell_x mm \<le> nx mm"
  shows "\<exists>self. DipolarEnergy__initialize mm self0 = Inr self"
  using assms by (auto simp: DipolarEnergy__initialize_def split: prod.splits)

lemma unitcell_cells_distinct: "distinct (unitcell_cells mm)"
  by (simp add: unitcell_cells_def distinct_product)

lemma unitcell_cells_set: "set (unitcell_cells mm) = {..<unitcell_y mm} \<times> {..<unitcell_x mm}"
  by (auto simp: unitcell_cells_def)

lemma initialize_kernels_built:
  assumes "DipolarEnergy__initialize mm self0 = Inr self"
  shows "kernels_built mm self" and "decay_exponent self = decay_exponent self0"
    and "prefactor self = prefactor self0" and "E self = E self0" and "E_perp self = E_perp self0"
proof -
  from initialize_Inr(2) [OF assms] obtain idx ks kself kother where
    b: "build_kernels mm (decay_exponent self0) (unitcell_cells mm) ((\<lambda>y x. - 1), [], [], [])
          = (idx, ks, kself, kother)"
    and s: "self = self0\<lparr>kernel_unitcell_indices := idx, kernel_unitcell := ks,
                           kernel_perpself_unitcell := kself,
                           kernel_perpother_unitcell := kother\<rparr>"
    by blast
  from s show "decay_exponent self = decay_exponent self0" "prefactor self = prefactor self0"
    "E self = E self0" "E_perp self = E_perp self0" by simp_all
  have len: "length kself = length ks" "length kother = length ks"
    using build_kernels_lengths [OF b] by simp_all
  have cellwise: "if cell_empty mm y x then idx y x = - 1
     else 0 \<le> idx y x \<and> nat (idx y x) < length ks \<and> nat (idx y x) < length kself
        \<and> nat (idx y x) < length kother
        \<and> ks ! nat (idx y x) = fst (kernels_at mm (decay_exponent self0) y x)
        \<and> kself ! nat (idx y x) = fst (snd (kernels_at mm (decay_exponent self0) y x))
        \<and> kother ! nat (idx y x) = snd (snd (kernels_at mm (decay_exponent self0) y x))"
    if "y < unitcell_y mm" "x < unitcell_x mm" for y x
  proof (cases "cell_empty mm y x")
    case True
    then show ?thesis using build_kernels_untouched [OF b, of y x] by simp
  next
    case False
    have "(y, x) \<in> set (unitcell_cells mm)" using that by (simp add: unitcell_cells_set)
    from build_kernels_found [OF b _ _ unitcell_cells_distinct this False] False len
    show ?thesis by simp
  qed
  show "kernels_built mm self"
    unfolding kernels_built_def using initialize_Inr(1) [OF assms] cellwise by (simp add: s)
qed

text \<open>
  Claim C8, for the documented range of the decay exponent. When \<open>_initialize\<close> succeeds
  on a lattice whose coordinates form a regular mesh grid, and \<open>decay_exponent\<close> is negative
  (the default is \<open>-3\<close>), every cached kernel (normal, perpendicular-self and
  perpendicular-other, after the periodic folding when it applies) has only finite entries and
  an entry that is exactly zero at its centre. For a positive exponent the centre of
  \<open>rr_inv3\<close> is \<open>0 ** (-decay_exponent)\<close>, which is infinite
  (\<open>cached_kernel_infinite_counterexample\<close> below).
\<close>

theorem cached_kernels_finite:
  assumes "DipolarEnergy__initialize mm self0 = Inr self"
    and "meshgrid_ok mm" and "decay_exponent self0 < 0"
  shows "\<forall>k \<in> set (kernel_unitcell self) \<union> set (kernel_perpself_unitcell self)
              \<union> set (kernel_perpother_unitcell self). kernel_ok mm k"
proof -
  from initialize_Inr(2) [OF assms(1)] obtain idx ks kself kother where
    b: "build_kernels mm (decay_exponent self0) (unitcell_cells mm) ((\<lambda>y x. - 1), [], [], [])
          = (idx, ks, kself, kother)"
    and s: "self = self0\<lparr>kernel_unitcell_indices := idx, kernel_unitcell := ks,
                           kernel_perpself_unitcell := kself,
                           kernel_perpother_unitcell := kother\<rparr>"
    by blast
  have pos: "0 < ny mm" "0 < nx mm" using initialize_Inr(1) [OF assms(1)] by simp_all
  note ok = kernels_at_ok [OF assms(2) pos assms(3)]
  have "kernel_ok mm k" if "k \<in> set ks" for k
    using that build_kernels_set(1) [OF b] ok(1) by auto
  moreover have "kernel_ok mm k" if "k \<in> set kself" for k
    using that build_kernels_set(2) [OF b] ok(2) by auto
  moreover have "kernel_ok mm k" if "k \<in> set kother" for k
    using that build_kernels_set(3) [OF b] ok(3) by auto
  ultimately show ?thesis by (auto simp: s)
qed

lemma square_oop_simps [simp]:
  "ny (square_oop h w) = h" "nx (square_oop h w) = w"
  "in_plane (square_oop h w) = False" "PBC (square_oop h w) = False"
  "USE_PERP_ENERGY (square_oop h w) = True"
  "m (square_oop h w) = (\<lambda>y x. 1)" "moment (square_oop h w) = (\<lambda>y x. 1)"
  "xx (square_oop h w) = (\<lambda>y x. real x)" "yy (square_oop h w) = (\<lambda>y x. real y)"
  "occupation (square_oop h w) = (\<lambda>y x. 1)"
  "unitcell_y (square_oop h w) = 1" "unitcell_x (square_oop h w) = 1"
  "SIMULTANEOUS_SWITCHES_CONVOLUTION_OR_SUM_CUTOFF (square_oop h w) = 20"
  "REDUCED_KERNEL_SIZE (square_oop h w) = 20"
  by (simp_all add: square_oop_def)

lemma meshgrid_square_oop: "meshgrid_ok (square_oop h w)"
  by (simp add: meshgrid_ok_def)

lemma unitcell_cells_1x1: "unitcell_y mm = 1 \<Longrightarrow> unitcell_x mm = 1 \<Longrightarrow> unitcell_cells mm = [(0, 0)]"
  by (simp add: unitcell_cells_def)

lemma initialize_1x1:
  assumes "unitcell_y mm = 1" "unitcell_x mm = 1" "0 < ny mm" "0 < nx mm" "\<not> cell_empty mm 0 0"
  shows "DipolarEnergy__initialize mm self0 =
           Inr (self0\<lparr>kernel_unitcell_indices := (\<lambda>y x. - 1)(0 := ((\<lambda>x. - 1)(0 := 0))),
                      kernel_unitcell := [fst (kernels_at mm (decay_exponent self0) 0 0)],
                      kernel_perpself_unitcell := [fst (snd (kernels_at mm (decay_exponent self0) 0 0))],
                      kernel_perpother_unitcell := [snd (snd (kernels_at mm (decay_exponent self0) 0 0))]\<rparr>)"
  using assms by (simp add: DipolarEnergy__initialize_def unitcell_cells_1x1)

theorem cached_kernels_finite_witness:
  "kernel_ok (square_oop 2 2) (fst (kernels_at (square_oop 2 2) (- 3) 0 0))"
proof -
  have ne: "\<not> cell_empty (square_oop 2 2) 0 0" by (simp add: cell_empty_def)
  have i: "DipolarEnergy__initialize (square_oop 2 2) (DipolarEnergy_new 1 (- 3)) =
     Inr ((DipolarEnergy_new 1 (- 3))\<lparr>kernel_unitcell_indices := (\<lambda>y x. - 1)(0 := ((\<lambda>x. - 1)(0 := 0))),
           kernel_unitcell := [fst (kernels_at (square_oop 2 2) (- 3) 0 0)],
           kernel_perpself_unitcell := [fst (snd (kernels_at (square_oop 2 2) (- 3) 0 0))],
           kernel_perpother_unitcell := [snd (snd (kernels_at (square_oop 2 2) (- 3) 0 0))]\<rparr>)"
    using initialize_1x1 [of "square_oop 2 2" "DipolarEnergy_new 1 (- 3)"] ne
    by (simp add: DipolarEnergy_new_def)
  have d: "decay_exponent (DipolarEnergy_new 1 (- 3)) < 0" by (simp add: DipolarEnergy_new_def)
  from cached_kernels_finite [OF i meshgrid_square_oop d] show ?thesis by simp
qed

lemma PInf_scale: "0 < c \<Longrightarrow> PInf * Fin c = PInf"
  by simp

theorem cached_kernel_infinite_counterexample:
  "kernel_entry (DipolarEnergy__initialize (square_oop 1 1) (DipolarEnergy_new 1 3)) 0 0 0 = Some PInf"
proof -
  have ne: "\<not> cell_empty (square_oop 1 1) 0 0" by (simp add: cell_empty_def)
  have k: "fst (kernels_at (square_oop 1 1) 3 0 0) 0 0 = PInf"
    by (simp add: kernels_at_def Let_def rinv3_def mirror4_eq rr_inv3_def rr_inv_def rr_sq_def
        xpow_def unitcell_slice_def toolargematrix_def)
  show ?thesis
    using initialize_1x1 [of "square_oop 1 1" "DipolarEnergy_new 1 3"] ne k
    by (simp add: DipolarEnergy_new_def kernel_entry_def)
qed

lemma sitesI: "fst p < ny mm \<Longrightarrow> snd p < nx mm \<Longrightarrow> p \<in> sites mm"
  by (cases p) (simp add: sites_def)

lemma sitesD: "p \<in> sites mm \<Longrightarrow> fst p < ny mm \<and> snd p < nx mm"
  by (cases p) (simp add: sites_def)

lemma finite_sites [simp]: "finite (sites mm)"
  by (simp add: sites_def)

lemma grid_sum_sites: "(\<Sum>u<ny mm. \<Sum>v<nx mm. f u v) = (\<Sum>q\<in>sites mm. f (fst q) (snd q))"
  by (simp add: sites_def sum.cartesian_product case_prod_beta)

lemma window_index:
  assumes "p \<in> sites mm" "q \<in> sites mm"
  shows "ny mm - 1 - fst p + fst q < 2 * ny mm - 1" "nx mm - 1 - snd p + snd q < 2 * nx mm - 1"
  using sitesD [OF assms(1)] sitesD [OF assms(2)] by arith+

lemma window_finite:
  assumes "kernel_ok mm k" "p \<in> sites mm" "q \<in> sites mm"
  shows "is_finite (window mm k p q)"
  using assms(1) window_index [OF assms(2,3)] by (simp add: kernel_ok_def window_def)

lemma window_Fin:
  assumes "kernel_ok mm k" "p \<in> sites mm" "q \<in> sites mm"
  shows "window mm k p q = Fin (val (window mm k p q))"
  by (rule is_finite_val [OF window_finite [OF assms]])

lemma window_centre:
  assumes "kernel_ok mm k" "p \<in> sites mm"
  shows "window mm k p p = 0"
proof -
  have "ny mm - 1 - fst p + fst p = ny mm - 1" "nx mm - 1 - snd p + snd p = nx mm - 1"
    using sitesD [OF assms(2)] by arith+
  with assms(1) show ?thesis by (simp add: window_def kernel_ok_def)
qed

lemma reversed_window:
  assumes "i < ny mm" "j < nx mm" "u < ny mm" "v < nx mm"
  shows "reversed mm k (i + (ny mm - 1) - u) (j + (nx mm - 1) - v) = window mm k (i, j) (u, v)"
proof -
  have "2 * ny mm - 2 - (i + (ny mm - 1) - u) = ny mm - 1 - i + u"
    "2 * nx mm - 2 - (j + (nx mm - 1) - v) = nx mm - 1 - j + v"
    using assms by arith+
  then show ?thesis by (simp add: reversed_def window_def)
qed

lemma convolve2d_valid_window:
  assumes "kernel_ok mm k" "i < ny mm" "j < nx mm"
  shows "convolve2d_valid (reversed mm k) (ny mm, nx mm) (\<lambda>u v. Fin (g u v)) i j
           = Fin (\<Sum>q\<in>sites mm. val (window mm k (i, j) q) * g (fst q) (snd q))"
proof -
  have "convolve2d_valid (reversed mm k) (ny mm, nx mm) (\<lambda>u v. Fin (g u v)) i j
          = (\<Sum>u<ny mm. \<Sum>v<nx mm. window mm k (i, j) (u, v) * Fin (g u v))"
    unfolding convolve2d_valid_def fst_conv snd_conv
  proof (rule sum.cong [OF refl], rule sum.cong [OF refl])
    fix u v assume "u \<in> {..<ny mm}" "v \<in> {..<nx mm}"
    then have "u < ny mm" "v < nx mm" by simp_all
    from reversed_window [OF assms(2,3) this]
    show "reversed mm k (i + (ny mm - 1) - u) (j + (nx mm - 1) - v) * Fin (g u v)
            = window mm k (i, j) (u, v) * Fin (g u v)"
      by (rule arg_cong)
  qed
  also have "\<dots> = (\<Sum>q\<in>sites mm. window mm k (i, j) q * Fin (g (fst q) (snd q)))"
    by (simp add: grid_sum_sites)
  also have "\<dots> = (\<Sum>q\<in>sites mm. Fin (val (window mm k (i, j) q) * g (fst q) (snd q)))"
  proof (rule sum.cong [OF refl])
    fix q assume q: "q \<in> sites mm"
    have "(i, j) \<in> sites mm" using assms(2,3) by (simp add: sites_def)
    from window_Fin [OF assms(1) this q]
    have "window mm k (i, j) q * Fin (g (fst q) (snd q))
            = Fin (val (window mm k (i, j) q)) * Fin (g (fst q) (snd q))" by simp
    then show "window mm k (i, j) q * Fin (g (fst q) (snd q))
            = Fin (val (window mm k (i, j) q) * g (fst q) (snd q))" by simp
  qed
  finally show ?thesis by (simp add: sum_Fin)
qed

lemma kernels_built_lookup:
  assumes "kernels_built mm self" "y < unitcell_y mm" "x < unitcell_x mm" "\<not> cell_empty mm y x"
  shows "0 \<le> kernel_unitcell_indices self y x"
    and "nat (kernel_unitcell_indices self y x) < length (kernel_unitcell self)"
    and "nat (kernel_unitcell_indices self y x) < length (kernel_perpself_unitcell self)"
    and "nat (kernel_unitcell_indices self y x) < length (kernel_perpother_unitcell self)"
    and "kernel_unitcell self ! nat (kernel_unitcell_indices self y x)
           = fst (kernels_at mm (decay_exponent self) y x)"
    and "kernel_perpself_unitcell self ! nat (kernel_unitcell_indices self y x)
           = fst (snd (kernels_at mm (decay_exponent self) y x))"
    and "kernel_perpother_unitcell self ! nat (kernel_unitcell_indices self y x)
           = snd (snd (kernels_at mm (decay_exponent self) y x))"
  using assms unfolding kernels_built_def by (metis (no_types, lifting))+

lemma kernels_built_empty:
  assumes "kernels_built mm self" "y < unitcell_y mm" "x < unitcell_x mm" "cell_empty mm y x"
  shows "kernel_unitcell_indices self y x = - 1"
  using assms unfolding kernels_built_def by (metis (no_types, lifting))

lemma kernels_built_pos:
  assumes "kernels_built mm self"
  shows "0 < ny mm" "0 < nx mm" "0 < unitcell_y mm" "0 < unitcell_x mm"
    "unitcell_y mm \<le> ny mm" "unitcell_x mm \<le> nx mm"
  using assms unfolding kernels_built_def by blast+

lemma update_cells_sum:
  assumes kb: "kernels_built mm self"
    and cs: "set cs \<subseteq> {..<unitcell_y mm} \<times> {..<unitcell_x mm}"
  shows "\<exists>te' tep'. update_cells mm self cs (te, tep) = Inr (te', tep')
     \<and> (\<forall>i j. te' i j = te i j
           + sum_list (map (\<lambda>c. cell_term mm (fst (kernels_at mm (decay_exponent self) (fst c) (snd c))) c i j) cs))
     \<and> (\<forall>i j. tep' i j = (if USE_PERP_ENERGY mm then tep i j
           + sum_list (map (\<lambda>c. cell_term mm (fst (snd (kernels_at mm (decay_exponent self) (fst c) (snd c)))) c i j) cs)
           else tep i j))"
  using cs
proof (induction cs arbitrary: te tep)
  case Nil
  then show ?case by simp
next
  case (Cons c cs)
  obtain y x where c: "c = (y, x)" by (cases c)
  from Cons.prems c have yx: "y < unitcell_y mm" "x < unitcell_x mm" and rest: "set cs \<subseteq> {..<unitcell_y mm} \<times> {..<unitcell_x mm}"
    by auto
  show ?case
  proof (cases "cell_empty mm y x")
    case True
    have step: "update_cells mm self (c # cs) (te, tep) = update_cells mm self cs (te, tep)"
      using kernels_built_empty [OF kb yx True] by (simp add: c)
    from Cons.IH [OF rest, of te tep] obtain te' tep' where
      r: "update_cells mm self cs (te, tep) = Inr (te', tep')"
      and e: "\<And>i j. te' i j = te i j
           + sum_list (map (\<lambda>c. cell_term mm (fst (kernels_at mm (decay_exponent self) (fst c) (snd c))) c i j) cs)"
      and ep: "\<And>i j. tep' i j = (if USE_PERP_ENERGY mm then tep i j
           + sum_list (map (\<lambda>c. cell_term mm (fst (snd (kernels_at mm (decay_exponent self) (fst c) (snd c)))) c i j) cs)
           else tep i j)"
      by blast
    have z: "cell_term mm k (y, x) i j = 0" for k i j
      using True by (simp add: cell_term_def)
    have "update_cells mm self (c # cs) (te, tep) = Inr (te', tep')"
      using step r by (simp only:)
    moreover have "\<forall>i j. te' i j = te i j
           + sum_list (map (\<lambda>c. cell_term mm (fst (kernels_at mm (decay_exponent self) (fst c) (snd c))) c i j) (c # cs))"
      by (simp add: e c z)
    moreover have "\<forall>i j. tep' i j = (if USE_PERP_ENERGY mm then tep i j
           + sum_list (map (\<lambda>c. cell_term mm (fst (snd (kernels_at mm (decay_exponent self) (fst c) (snd c)))) c i j) (c # cs))
           else tep i j)"
      by (simp add: ep c z)
    ultimately show ?thesis by blast
  next
    case False
    note lk = kernels_built_lookup [OF kb yx False]
    let ?te = "\<lambda>i j. te i j + cell_term mm (fst (kernels_at mm (decay_exponent self) y x)) (y, x) i j"
    let ?tep = "if USE_PERP_ENERGY mm
       then (\<lambda>i j. tep i j + cell_term mm (fst (snd (kernels_at mm (decay_exponent self) y x))) (y, x) i j)
       else tep"
    have step: "update_cells mm self (c # cs) (te, tep) = update_cells mm self cs (?te, ?tep)"
      using lk False by (simp add: c Let_def cell_term_def not_le)
    from Cons.IH [OF rest, of ?te ?tep] obtain te' tep' where
      r: "update_cells mm self cs (?te, ?tep) = Inr (te', tep')"
      and e: "\<And>i j. te' i j = ?te i j
           + sum_list (map (\<lambda>c. cell_term mm (fst (kernels_at mm (decay_exponent self) (fst c) (snd c))) c i j) cs)"
      and ep: "\<And>i j. tep' i j = (if USE_PERP_ENERGY mm then ?tep i j
           + sum_list (map (\<lambda>c. cell_term mm (fst (snd (kernels_at mm (decay_exponent self) (fst c) (snd c)))) c i j) cs)
           else ?tep i j)"
      by blast
    have "update_cells mm self (c # cs) (te, tep) = Inr (te', tep')"
      using step r by (simp only:)
    moreover have "\<forall>i j. te' i j = te i j
           + sum_list (map (\<lambda>c. cell_term mm (fst (kernels_at mm (decay_exponent self) (fst c) (snd c))) c i j) (c # cs))"
      by (simp add: e c add.assoc)
    moreover have "\<forall>i j. tep' i j = (if USE_PERP_ENERGY mm then tep i j
           + sum_list (map (\<lambda>c. cell_term mm (fst (snd (kernels_at mm (decay_exponent self) (fst c) (snd c)))) c i j) (c # cs))
           else tep i j)"
      by (simp add: ep c add.assoc)
    ultimately show ?thesis by blast
  qed
qed

lemma sum_list_Fin: "sum_list (map (\<lambda>c. Fin (f c)) cs) = Fin (sum_list (map f cs))"
  by (induction cs) (simp_all add: zero_xreal_def)

lemma cell_in_range:
  assumes "0 < unitcell_y mm" "0 < unitcell_x mm"
  shows "cell mm p \<in> set (unitcell_cells mm)"
  using assms by (simp add: unitcell_cells_set cell_def)

lemma cell_term_Fin:
  assumes "kernel_ok mm k" "i < ny mm" "j < nx mm"
  shows "cell_term mm k c i j =
           Fin (if cell_empty mm (fst c) (snd c) then 0
                else partial_m mm (fst c) (snd c) i j * field mm k (i, j))"
  using convolve2d_valid_window [OF assms, of "mmoment mm"]
  by (simp add: cell_term_def field_def zero_xreal_def)

lemma cells_sum:
  assumes kf: "kernels_finite mm de" and pos: "0 < unitcell_y mm" "0 < unitcell_x mm"
    and ij: "i < ny mm" "j < nx mm"
  shows "sum_list (map (\<lambda>c. cell_term mm (fst (kernels_at mm de (fst c) (snd c))) c i j)
            (unitcell_cells mm))
          = Fin (if occupied mm (i, j) then m mm i j * field mm (K_normal mm de (i, j)) (i, j) else 0)"
    and "sum_list (map (\<lambda>c. cell_term mm (fst (snd (kernels_at mm de (fst c) (snd c)))) c i j)
            (unitcell_cells mm))
          = Fin (if occupied mm (i, j) then m mm i j * field mm (K_perpself mm de (i, j)) (i, j) else 0)"
proof -
  let ?c0 = "cell mm (i, j)"
  have in_range: "c \<in> set (unitcell_cells mm) \<Longrightarrow> fst c < unitcell_y mm \<and> snd c < unitcell_x mm" for c
    by (cases c) (simp add: unitcell_cells_set)
  have pm: "partial_m mm (fst c) (snd c) i j = (if c = ?c0 then m mm i j else 0)" for c
    by (cases c) (auto simp: partial_m_def cell_def)
  {
    fix sel :: "xreal array2 \<times> xreal array2 \<times> xreal array2 \<Rightarrow> xreal array2"
    assume ok: "\<And>y x. y < unitcell_y mm \<Longrightarrow> x < unitcell_x mm \<Longrightarrow> kernel_ok mm (sel (kernels_at mm de y x))"
    let ?f = "\<lambda>c. if c = ?c0 then (if cell_empty mm (fst c) (snd c) then 0
                else m mm i j * field mm (sel (kernels_at mm de (fst c) (snd c))) (i, j)) else 0"
    have "sum_list (map (\<lambda>c. cell_term mm (sel (kernels_at mm de (fst c) (snd c))) c i j) (unitcell_cells mm))
            = sum_list (map (\<lambda>c. Fin (?f c)) (unitcell_cells mm))"
    proof (rule arg_cong [where f = sum_list], rule map_cong [OF refl])
      fix c assume "c \<in> set (unitcell_cells mm)"
      then have "kernel_ok mm (sel (kernels_at mm de (fst c) (snd c)))"
        using in_range ok by blast
      from cell_term_Fin [OF this ij, of c]
      show "cell_term mm (sel (kernels_at mm de (fst c) (snd c))) c i j = Fin (?f c)"
        by (simp add: pm)
    qed
    also have "\<dots> = Fin (sum ?f (set (unitcell_cells mm)))"
      by (simp add: sum_list_Fin sum_list_distinct_conv_sum_set [OF unitcell_cells_distinct])
    also have "sum ?f (set (unitcell_cells mm)) =
        (if cell_empty mm (fst ?c0) (snd ?c0) then 0
         else m mm i j * field mm (sel (kernels_at mm de (fst ?c0) (snd ?c0))) (i, j))"
      using cell_in_range [OF pos, of "(i, j)"] by (simp add: sum.delta)
    finally have "sum_list (map (\<lambda>c. cell_term mm (sel (kernels_at mm de (fst c) (snd c))) c i j) (unitcell_cells mm))
       = Fin (if occupied mm (i, j)
              then m mm i j * field mm (sel (kernels_at mm de (fst ?c0) (snd ?c0))) (i, j) else 0)"
      by (simp add: occupied_def cell_def)
  }
  note main = this
  show "sum_list (map (\<lambda>c. cell_term mm (fst (kernels_at mm de (fst c) (snd c))) c i j)
            (unitcell_cells mm))
          = Fin (if occupied mm (i, j) then m mm i j * field mm (K_normal mm de (i, j)) (i, j) else 0)"
    using main [of fst] kf by (simp add: kernels_finite_def K_normal_def cell_def)
  show "sum_list (map (\<lambda>c. cell_term mm (fst (snd (kernels_at mm de (fst c) (snd c)))) c i j)
            (unitcell_cells mm))
          = Fin (if occupied mm (i, j) then m mm i j * field mm (K_perpself mm de (i, j)) (i, j) else 0)"
    using main [of "\<lambda>t. fst (snd t)"] kf by (simp add: kernels_finite_def K_perpself_def cell_def)
qed

lemma update_closed:
  assumes kb: "kernels_built mm self" and kf: "kernels_finite mm (decay_exponent self)"
  shows "\<exists>self'. DipolarEnergy_update mm self = Inr self'
     \<and> DipolarEnergy.more self' = DipolarEnergy.more self
     \<and> prefactor self' = prefactor self \<and> decay_exponent self' = decay_exponent self
     \<and> kernel_unitcell_indices self' = kernel_unitcell_indices self
     \<and> kernel_unitcell self' = kernel_unitcell self
     \<and> kernel_perpself_unitcell self' = kernel_perpself_unitcell self
     \<and> kernel_perpother_unitcell self' = kernel_perpother_unitcell self
     \<and> (\<forall>p\<in>sites mm. E self' (fst p) (snd p)
            = Fin (local_energy mm (prefactor self) (K_normal mm (decay_exponent self)) p))
     \<and> (if USE_PERP_ENERGY mm
         then \<forall>p\<in>sites mm. E_perp self' (fst p) (snd p)
                = Fin (local_energy mm (prefactor self) (K_perpself mm (decay_exponent self)) p)
         else E_perp self' = E_perp self)"
proof -
  note pos = kernels_built_pos [OF kb]
  have sub: "set (unitcell_cells mm) \<subseteq> {..<unitcell_y mm} \<times> {..<unitcell_x mm}"
    by (simp add: unitcell_cells_set)
  from update_cells_sum [OF kb sub, of "\<lambda>i j. 0" "\<lambda>i j. 0"] obtain te tep where
    r: "update_cells mm self (unitcell_cells mm) (\<lambda>i j. 0, \<lambda>i j. 0) = Inr (te, tep)"
    and e: "\<And>i j. te i j = 0 + sum_list (map (\<lambda>c. cell_term mm
                (fst (kernels_at mm (decay_exponent self) (fst c) (snd c))) c i j) (unitcell_cells mm))"
    and ep: "\<And>i j. tep i j = (if USE_PERP_ENERGY mm then 0 + sum_list (map (\<lambda>c. cell_term mm
                (fst (snd (kernels_at mm (decay_exponent self) (fst c) (snd c)))) c i j) (unitcell_cells mm))
              else 0)"
    by blast
  let ?self = "self\<lparr>E := (\<lambda>i j. Fin (prefactor self * moment mm i j) * te i j),
                    E_perp := (if USE_PERP_ENERGY mm
                               then (\<lambda>i j. Fin (prefactor self * moment mm i j) * tep i j)
                               else E_perp self)\<rparr>"
  have u: "DipolarEnergy_update mm self = Inr ?self"
    by (simp add: DipolarEnergy_update_def r)
  have E: "E ?self (fst p) (snd p)
            = Fin (local_energy mm (prefactor self) (K_normal mm (decay_exponent self)) p)"
    if "p \<in> sites mm" for p
  proof -
    from that have ij: "fst p < ny mm" "snd p < nx mm" by (simp_all add: sitesD)
    from cells_sum(1) [OF kf pos(3,4) ij] show ?thesis
      by (simp add: e local_energy_def)
  qed
  have Ep: "E_perp ?self (fst p) (snd p)
            = Fin (local_energy mm (prefactor self) (K_perpself mm (decay_exponent self)) p)"
    if "p \<in> sites mm" "USE_PERP_ENERGY mm" for p
  proof -
    from that have ij: "fst p < ny mm" "snd p < nx mm" by (simp_all add: sitesD)
    from cells_sum(2) [OF kf pos(3,4) ij] that(2) show ?thesis
      by (simp add: ep local_energy_def)
  qed
  show ?thesis
    by (rule exI [of _ ?self]) (use u E Ep in simp)
qed

lemma times_minus_one [simp]: "a * Fin (- 1) = - a"
  by (cases a) simp_all

lemma negate_at_single: "negate_at [p] A (fst q) (snd q) = (if q = p then - A (fst q) (snd q) else A (fst q) (snd q))"
  by (cases q) (auto simp: negate_at_def)

lemma negate_at_eq: "negate_at ps A (fst q) (snd q) = (if q \<in> set ps then - A (fst q) (snd q) else A (fst q) (snd q))"
  by (cases q) (auto simp: negate_at_def)

lemma occupied_lookup:
  assumes kb: "kernels_built mm self" and occ: "occupied mm p"
  shows "0 \<le> kernel_unitcell_indices self (fst p mod unitcell_y mm) (snd p mod unitcell_x mm)"
    and "nat (kernel_unitcell_indices self (fst p mod unitcell_y mm) (snd p mod unitcell_x mm))
           < length (kernel_unitcell self)"
    and "nat (kernel_unitcell_indices self (fst p mod unitcell_y mm) (snd p mod unitcell_x mm))
           < length (kernel_perpself_unitcell self)"
    and "nat (kernel_unitcell_indices self (fst p mod unitcell_y mm) (snd p mod unitcell_x mm))
           < length (kernel_perpother_unitcell self)"
    and "kernel_unitcell self
           ! nat (kernel_unitcell_indices self (fst p mod unitcell_y mm) (snd p mod unitcell_x mm))
           = K_normal mm (decay_exponent self) p"
    and "kernel_perpself_unitcell self
           ! nat (kernel_unitcell_indices self (fst p mod unitcell_y mm) (snd p mod unitcell_x mm))
           = K_perpself mm (decay_exponent self) p"
    and "kernel_perpother_unitcell self
           ! nat (kernel_unitcell_indices self (fst p mod unitcell_y mm) (snd p mod unitcell_x mm))
           = K_perpother mm (decay_exponent self) p"
proof -
  note pos = kernels_built_pos [OF kb]
  have r: "fst p mod unitcell_y mm < unitcell_y mm" "snd p mod unitcell_x mm < unitcell_x mm"
    using pos by simp_all
  have ne: "\<not> cell_empty mm (fst p mod unitcell_y mm) (snd p mod unitcell_x mm)"
    using occ by (simp add: occupied_def)
  note lk = kernels_built_lookup [OF kb r ne]
  show "0 \<le> kernel_unitcell_indices self (fst p mod unitcell_y mm) (snd p mod unitcell_x mm)"
    and "nat (kernel_unitcell_indices self (fst p mod unitcell_y mm) (snd p mod unitcell_x mm))
           < length (kernel_unitcell self)"
    and "nat (kernel_unitcell_indices self (fst p mod unitcell_y mm) (snd p mod unitcell_x mm))
           < length (kernel_perpself_unitcell self)"
    and "nat (kernel_unitcell_indices self (fst p mod unitcell_y mm) (snd p mod unitcell_x mm))
           < length (kernel_perpother_unitcell self)"
    and "kernel_unitcell self
           ! nat (kernel_unitcell_indices self (fst p mod unitcell_y mm) (snd p mod unitcell_x mm))
           = K_normal mm (decay_exponent self) p"
    and "kernel_perpself_unitcell self
           ! nat (kernel_unitcell_indices self (fst p mod unitcell_y mm) (snd p mod unitcell_x mm))
           = K_perpself mm (decay_exponent self) p"
    and "kernel_perpother_unitcell self
           ! nat (kernel_unitcell_indices self (fst p mod unitcell_y mm) (snd p mod unitcell_x mm))
           = K_perpother mm (decay_exponent self) p"
    using lk by (simp_all add: K_normal_def K_perpself_def K_perpother_def)
qed

lemma unoccupied_lookup:
  assumes kb: "kernels_built mm self" and occ: "\<not> occupied mm p"
  shows "kernel_unitcell_indices self (fst p mod unitcell_y mm) (snd p mod unitcell_x mm) = - 1"
proof -
  note pos = kernels_built_pos [OF kb]
  have r: "fst p mod unitcell_y mm < unitcell_y mm" "snd p mod unitcell_x mm < unitcell_x mm"
    using pos by simp_all
  show ?thesis using kernels_built_empty [OF kb r] occ by (simp add: occupied_def)
qed

lemma kernels_finite_K:
  assumes "kernels_finite mm de" "0 < unitcell_y mm" "0 < unitcell_x mm"
  shows "kernel_ok mm (K_normal mm de p)" "kernel_ok mm (K_perpself mm de p)"
    "kernel_ok mm (K_perpother mm de p)"
  using assms by (simp_all add: kernels_finite_def K_normal_def K_perpself_def K_perpother_def)

lemma update_single_unoccupied:
  assumes kb: "kernels_built mm self" and occ: "\<not> occupied mm p"
  shows "DipolarEnergy_update_single mm self p = Inr self"
  using unoccupied_lookup [OF kb occ] by (simp add: DipolarEnergy_update_single_def Let_def)

lemma update_single_closed:
  assumes kb: "kernels_built mm self" and kf: "kernels_finite mm (decay_exponent self)"
    and p: "p \<in> sites mm" and occ: "occupied mm p"
  shows "\<exists>self'. DipolarEnergy_update_single mm self p = Inr self'
     \<and> DipolarEnergy.more self' = DipolarEnergy.more self
     \<and> prefactor self' = prefactor self \<and> decay_exponent self' = decay_exponent self
     \<and> kernel_unitcell_indices self' = kernel_unitcell_indices self
     \<and> kernel_unitcell self' = kernel_unitcell self
     \<and> kernel_perpself_unitcell self' = kernel_perpself_unitcell self
     \<and> kernel_perpother_unitcell self' = kernel_perpother_unitcell self
     \<and> (\<forall>q\<in>sites mm. E self' (fst q) (snd q) =
           (if q = p
            then - (E self (fst q) (snd q) + Fin (2 * (prefactor self * gm mm p
                      * (gm mm q * coupling mm (K_normal mm (decay_exponent self) p) p q))))
            else E self (fst q) (snd q) + Fin (2 * (prefactor self * gm mm p
                      * (gm mm q * coupling mm (K_normal mm (decay_exponent self) p) p q)))))
     \<and> (if USE_PERP_ENERGY mm
         then \<forall>q\<in>sites mm. E_perp self' (fst q) (snd q) =
           (if q = p
            then - (E_perp self (fst q) (snd q) + Fin (2 * (prefactor self * gm mm p
                      * (gm mm q * coupling mm (K_perpother mm (decay_exponent self) p) p q))))
            else E_perp self (fst q) (snd q) + Fin (2 * (prefactor self * gm mm p
                      * (gm mm q * coupling mm (K_perpother mm (decay_exponent self) p) p q))))
         else E_perp self' = E_perp self)"
proof -
  note pos = kernels_built_pos [OF kb]
  note lk = occupied_lookup [OF kb occ]
  note ok = kernels_finite_K [OF kf pos(3,4), of p]
  let ?n = "nat (kernel_unitcell_indices self (fst p mod unitcell_y mm) (snd p mod unitcell_x mm))"
  let ?E1 = "\<lambda>u v. E self u v + Fin 2 * (Fin (prefactor self * mmoment mm (fst p) (snd p))
                * (Fin (mmoment mm u v) * window mm (K_normal mm (decay_exponent self) p) p (u, v)))"
  let ?Ep1 = "\<lambda>u v. E_perp self u v + Fin 2 * (Fin (prefactor self * mmoment mm (fst p) (snd p))
                * (Fin (mmoment mm u v) * window mm (K_perpother mm (decay_exponent self) p) p (u, v)))"
  let ?self = "self\<lparr>E := negate_at [p] ?E1,
                    E_perp := (if USE_PERP_ENERGY mm then negate_at [p] ?Ep1 else E_perp self)\<rparr>"
  have shape: "in_shape (ny mm) (nx mm) p"
    using sitesD [OF p] by (simp add: in_shape_def)
  have u: "DipolarEnergy_update_single mm self p = Inr ?self"
    using lk(1-4) shape
    by (simp add: DipolarEnergy_update_single_def Let_def not_le lk(5,7) window_def)
  have w: "Fin 2 * (Fin (prefactor self * mmoment mm (fst p) (snd p))
                * (Fin (mmoment mm (fst q) (snd q)) * window mm k p q))
           = Fin (2 * (prefactor self * gm mm p * (gm mm q * coupling mm k p q)))"
    if "q \<in> sites mm" "kernel_ok mm k" for q k
    using window_Fin [OF that(2) p that(1)]
    by (simp add: gm_def coupling_def) (metis times_xreal.simps(1))
  have E: "E ?self (fst q) (snd q) =
           (if q = p
            then - (E self (fst q) (snd q) + Fin (2 * (prefactor self * gm mm p
                      * (gm mm q * coupling mm (K_normal mm (decay_exponent self) p) p q))))
            else E self (fst q) (snd q) + Fin (2 * (prefactor self * gm mm p
                      * (gm mm q * coupling mm (K_normal mm (decay_exponent self) p) p q))))"
    if "q \<in> sites mm" for q
    using w [OF that ok(1)] by (cases "q = p") (simp_all add: negate_at_single)
  have Ep: "E_perp ?self (fst q) (snd q) =
           (if q = p
            then - (E_perp self (fst q) (snd q) + Fin (2 * (prefactor self * gm mm p
                      * (gm mm q * coupling mm (K_perpother mm (decay_exponent self) p) p q))))
            else E_perp self (fst q) (snd q) + Fin (2 * (prefactor self * gm mm p
                      * (gm mm q * coupling mm (K_perpother mm (decay_exponent self) p) p q))))"
    if "q \<in> sites mm" "USE_PERP_ENERGY mm" for q
    using w [OF that(1) ok(3)] that(2) by (cases "q = p") (simp_all add: negate_at_single)
  show ?thesis
    by (rule exI [of _ ?self]) (use u E Ep in simp)
qed

lemma direct_sum_closed:
  "direct_sum mm k ps acc u v
     = acc u v + sum_list (map (\<lambda>p. Fin (gm mm p) * window mm k p (u, v)) ps)"
proof (induction ps arbitrary: acc)
  case Nil
  then show ?case by simp
next
  case (Cons p ps)
  obtain y x where p: "p = (y, x)" by (cases p)
  show ?case
    by (simp add: p Cons.IH gm_def window_def add.assoc)
qed

lemma direct_sum_Fin:
  assumes "kernel_ok mm k" "set ps \<subseteq> sites mm" "q \<in> sites mm"
  shows "direct_sum mm k ps (\<lambda>u v. 0) (fst q) (snd q)
           = Fin (sum_list (map (\<lambda>p. gm mm p * coupling mm k p q) ps))"
proof -
  have "sum_list (map (\<lambda>p. Fin (gm mm p) * window mm k p q) ps)
          = sum_list (map (\<lambda>p. Fin (gm mm p * coupling mm k p q)) ps)"
  proof (rule arg_cong [where f = sum_list], rule map_cong [OF refl])
    fix p assume "p \<in> set ps"
    with assms(2) have "p \<in> sites mm" by blast
    from window_Fin [OF assms(1) this assms(3)]
    show "Fin (gm mm p) * window mm k p q = Fin (gm mm p * coupling mm k p q)"
      by (simp add: coupling_def) (metis times_xreal.simps(1))
  qed
  then show ?thesis
    by (simp add: direct_sum_closed sum_list_Fin)
qed

lemma sum_list_delta:
  assumes "distinct gs" "a \<in> set gs"
  shows "sum_list (map (\<lambda>i. if a = i then c else (0::real)) gs) = c"
  using assms by (simp add: sum_list_distinct_conv_sum_set sum.delta')

lemma sum_list_group:
  fixes f :: "'a \<Rightarrow> real"
  assumes "distinct gs" "\<forall>p\<in>set ps. r p \<in> set gs"
  shows "sum_list (map (\<lambda>i. sum_list (map f (filter (\<lambda>p. r p = i) ps))) gs) = sum_list (map f ps)"
  using assms(2)
proof (induction ps)
  case Nil
  then show ?case by simp
next
  case (Cons p ps)
  have "sum_list (map (\<lambda>i. sum_list (map f (filter (\<lambda>p. r p = i) (p # ps)))) gs)
      = sum_list (map (\<lambda>i. (if r p = i then f p else 0)
                          + sum_list (map f (filter (\<lambda>p. r p = i) ps))) gs)"
    by (intro arg_cong [where f = sum_list] map_cong refl) simp
  also have "\<dots> = sum_list (map (\<lambda>i. if r p = i then f p else 0) gs)
                  + sum_list (map (\<lambda>i. sum_list (map f (filter (\<lambda>p. r p = i) ps))) gs)"
    by (simp add: sum_list_addf)
  also have "sum_list (map (\<lambda>i. if r p = i then f p else 0) gs) = f p"
    using Cons.prems assms(1) by (intro sum_list_delta) simp_all
  finally show ?case using Cons by simp
qed

lemma raveled_less:
  assumes "0 < unitcell_y mm" "0 < unitcell_x mm"
  shows "raveled mm p < unitcell_y mm * unitcell_x mm"
proof -
  have a: "snd p mod unitcell_x mm < unitcell_x mm" and b: "fst p mod unitcell_y mm < unitcell_y mm"
    using assms by simp_all
  have "snd p mod unitcell_x mm + (fst p mod unitcell_y mm) * unitcell_x mm
          < (fst p mod unitcell_y mm + 1) * unitcell_x mm"
    using a by simp
  also have "\<dots> \<le> unitcell_y mm * unitcell_x mm"
    using b by (intro mult_right_mono) simp_all
  finally show ?thesis by (simp add: raveled_def)
qed

lemma raveled_cell:
  assumes "0 < unitcell_x mm" "raveled mm p = i"
  shows "i div unitcell_x mm = fst p mod unitcell_y mm" "i mod unitcell_x mm = snd p mod unitcell_x mm"
  using assms by (auto simp: raveled_def)

lemma update_groups_sum:
  assumes kb: "kernels_built mm self"
    and gs: "\<forall>i\<in>set gs. i < unitcell_y mm * unitcell_x mm"
  shows "\<exists>E' Ep'. update_groups mm self ps gs (E0, Ep0) = Inr (E', Ep')
     \<and> (\<forall>u v. E' u v = E0 u v + sum_list (map (\<lambda>i. group_term mm (prefactor self)
            (\<lambda>i. fst (kernels_at mm (decay_exponent self) (i div unitcell_x mm) (i mod unitcell_x mm)))
            ps i u v) gs))
     \<and> (\<forall>u v. Ep' u v = (if USE_PERP_ENERGY mm then Ep0 u v + sum_list (map (\<lambda>i. group_term mm (prefactor self)
            (\<lambda>i. snd (snd (kernels_at mm (decay_exponent self) (i div unitcell_x mm) (i mod unitcell_x mm))))
            ps i u v) gs) else Ep0 u v))"
  using gs
proof (induction gs arbitrary: E0 Ep0)
  case Nil
  then show ?case by simp
next
  case (Cons i gs)
  note pos = kernels_built_pos [OF kb]
  let ?kn = "\<lambda>i. fst (kernels_at mm (decay_exponent self) (i div unitcell_x mm) (i mod unitcell_x mm))"
  let ?ko = "\<lambda>i. snd (snd (kernels_at mm (decay_exponent self) (i div unitcell_x mm) (i mod unitcell_x mm)))"
  from Cons.prems have i: "i < unitcell_y mm * unitcell_x mm" and rest: "\<forall>i\<in>set gs. i < unitcell_y mm * unitcell_x mm"
    by simp_all
  have yx: "i div unitcell_x mm < unitcell_y mm" "i mod unitcell_x mm < unitcell_x mm"
    using i pos by (simp_all add: less_mult_imp_div_less)
  show ?case
  proof (cases "cell_empty mm (i div unitcell_x mm) (i mod unitcell_x mm)")
    case True
    have step: "update_groups mm self ps (i # gs) (E0, Ep0) = update_groups mm self ps gs (E0, Ep0)"
      using kernels_built_empty [OF kb yx True] by (simp add: Let_def)
    from Cons.IH [OF rest, of E0 Ep0] obtain E' Ep' where
      r: "update_groups mm self ps gs (E0, Ep0) = Inr (E', Ep')"
      and e: "\<And>u v. E' u v = E0 u v + sum_list (map (\<lambda>i. group_term mm (prefactor self) ?kn ps i u v) gs)"
      and ep: "\<And>u v. Ep' u v = (if USE_PERP_ENERGY mm then Ep0 u v
                 + sum_list (map (\<lambda>i. group_term mm (prefactor self) ?ko ps i u v) gs) else Ep0 u v)"
      by blast
    have z: "group_term mm P k_of ps i u v = 0" for P k_of u v
      using True by (simp add: group_term_def)
    have "update_groups mm self ps (i # gs) (E0, Ep0) = Inr (E', Ep')"
      using step r by (simp only:)
    moreover have "\<forall>u v. E' u v = E0 u v + sum_list (map (\<lambda>i. group_term mm (prefactor self) ?kn ps i u v) (i # gs))"
      by (simp add: e z)
    moreover have "\<forall>u v. Ep' u v = (if USE_PERP_ENERGY mm then Ep0 u v
                 + sum_list (map (\<lambda>i. group_term mm (prefactor self) ?ko ps i u v) (i # gs)) else Ep0 u v)"
      by (simp add: ep z)
    ultimately show ?thesis by blast
  next
    case False
    note lk = kernels_built_lookup [OF kb yx False]
    let ?E = "\<lambda>u v. E0 u v + group_term mm (prefactor self) ?kn ps i u v"
    let ?Ep = "if USE_PERP_ENERGY mm then (\<lambda>u v. Ep0 u v + group_term mm (prefactor self) ?ko ps i u v) else Ep0"
    have step: "update_groups mm self ps (i # gs) (E0, Ep0) = update_groups mm self ps gs (?E, ?Ep)"
      using lk False by (simp add: Let_def group_term_def not_le)
    from Cons.IH [OF rest, of ?E ?Ep] obtain E' Ep' where
      r: "update_groups mm self ps gs (?E, ?Ep) = Inr (E', Ep')"
      and e: "\<And>u v. E' u v = ?E u v + sum_list (map (\<lambda>i. group_term mm (prefactor self) ?kn ps i u v) gs)"
      and ep: "\<And>u v. Ep' u v = (if USE_PERP_ENERGY mm then ?Ep u v
                 + sum_list (map (\<lambda>i. group_term mm (prefactor self) ?ko ps i u v) gs) else ?Ep u v)"
      by blast
    have "update_groups mm self ps (i # gs) (E0, Ep0) = Inr (E', Ep')"
      using step r by (simp only:)
    moreover have "\<forall>u v. E' u v = E0 u v + sum_list (map (\<lambda>i. group_term mm (prefactor self) ?kn ps i u v) (i # gs))"
      by (simp add: e add.assoc)
    moreover have "\<forall>u v. Ep' u v = (if USE_PERP_ENERGY mm then Ep0 u v
                 + sum_list (map (\<lambda>i. group_term mm (prefactor self) ?ko ps i u v) (i # gs)) else Ep0 u v)"
      by (simp add: ep add.assoc)
    ultimately show ?thesis by blast
  qed
qed

lemma pad_sum:
  fixes f :: "nat \<Rightarrow> nat \<Rightarrow> 'a::comm_monoid_add"
  assumes "u < h"
  shows "(\<Sum>a<2 * h - 1. case pad_index False h (int u + int (h - 1) - int a) of
             None \<Rightarrow> 0 | Some y \<Rightarrow> f y a)
         = (\<Sum>y<h. f y (u + h - 1 - y))"
proof -
  let ?g = "\<lambda>a. case pad_index False h (int u + int (h - 1) - int a) of
             None \<Rightarrow> 0 | Some y \<Rightarrow> f y a"
  have "sum ?g {..<2 * h - 1} = sum ?g {u..u + h - 1}"
  proof (rule sum.mono_neutral_right)
    show "finite {..<2 * h - 1}" by simp
    show "{u..u + h - 1} \<subseteq> {..<2 * h - 1}" using assms by auto
    show "\<forall>a\<in>{..<2 * h - 1} - {u..u + h - 1}. ?g a = 0"
      using assms by (auto simp: pad_index_def)
  qed
  also have "\<dots> = (\<Sum>y<h. f y (u + h - 1 - y))"
  proof (rule sum.reindex_bij_witness [where i = "\<lambda>y. u + h - 1 - y" and j = "\<lambda>a. u + h - 1 - a"])
    fix a assume a: "a \<in> {u..u + h - 1}"
    show "u + h - 1 - (u + h - 1 - a) = a" using a by auto
    show "u + h - 1 - a \<in> {..<h}" using a assms by auto
    have eq: "int u + int (h - 1) - int a = int (u + h - 1 - a)" using a assms by auto
    have lt: "u + h - 1 - a < h" using a assms by auto
    have "pad_index False h (int (u + h - 1 - a)) = Some (u + h - 1 - a)"
      using lt by (simp add: pad_index_def)
    then have "?g a = f (u + h - 1 - a) a" unfolding eq by simp
    moreover have "u + h - 1 - (u + h - 1 - a) = a" using a by auto
    ultimately show "f (u + h - 1 - a) (u + h - 1 - (u + h - 1 - a)) = ?g a"
      by simp
  next
    fix y assume y: "y \<in> {..<h}"
    show "u + h - 1 - (u + h - 1 - y) = y" using y assms by auto
    show "u + h - 1 - y \<in> {u..u + h - 1}" using y assms by auto
  qed
  finally show ?thesis .
qed

lemma convolve_full:
  fixes in1 in2 :: "('a::{comm_monoid_add,times}) array2"
  assumes "u < h" "v < w"
  shows "convolve2d_same False (h, w) in1 (2 * h - 1, 2 * w - 1) in2 u v
           = (\<Sum>y<h. \<Sum>x<w. in1 y x * in2 (u + h - 1 - y) (v + w - 1 - x))"
proof -
  have hh: "(2 * h - 1 - 1) div 2 = h - 1" "(2 * w - 1 - 1) div 2 = w - 1" by auto
  have inner: "(\<Sum>b<2 * w - 1. case pad_index False w (int v + int (w - 1) - int b) of
             None \<Rightarrow> 0 | Some x \<Rightarrow> in1 y x * in2 a b)
           = (\<Sum>x<w. in1 y x * in2 a (v + w - 1 - x))" for y a
    by (rule pad_sum [OF assms(2), where f = "\<lambda>x b. in1 y x * in2 a b"])
  have "convolve2d_same False (h, w) in1 (2 * h - 1, 2 * w - 1) in2 u v
      = (\<Sum>a<2 * h - 1. case pad_index False h (int u + int (h - 1) - int a) of
             None \<Rightarrow> 0
           | Some y \<Rightarrow> (\<Sum>b<2 * w - 1. case pad_index False w (int v + int (w - 1) - int b) of
             None \<Rightarrow> 0 | Some x \<Rightarrow> in1 y x * in2 a b))"
    unfolding convolve2d_same_def fst_conv snd_conv hh
    by (intro sum.cong refl) (simp split: option.splits)
  also have "\<dots> = (\<Sum>a<2 * h - 1. case pad_index False h (int u + int (h - 1) - int a) of
             None \<Rightarrow> 0 | Some y \<Rightarrow> (\<Sum>x<w. in1 y x * in2 a (v + w - 1 - x)))"
    unfolding inner by (rule refl)
  also have "\<dots> = (\<Sum>y<h. \<Sum>x<w. in1 y x * in2 (u + h - 1 - y) (v + w - 1 - x))"
    by (rule pad_sum [OF assms(1), where f = "\<lambda>y a. \<Sum>x<w. in1 y x * in2 a (v + w - 1 - x)"])
  finally show ?thesis .
qed

lemma usefulkernel_full:
  assumes "full_kernel mm" "0 < ny mm" "0 < nx mm"
  shows "usefulkernel_shape mm = (2 * ny mm - 1, 2 * nx mm - 1)" "usefulkernel mm k = k"
proof -
  consider "REDUCED_KERNEL_SIZE mm = 0"
    | "REDUCED_KERNEL_SIZE mm \<noteq> 0" "ny mm - 1 \<le> REDUCED_KERNEL_SIZE mm"
      "nx mm - 1 \<le> REDUCED_KERNEL_SIZE mm"
    using assms(1) unfolding full_kernel_def by auto
  then have "usefulkernel_shape mm = (2 * ny mm - 1, 2 * nx mm - 1) \<and> usefulkernel mm k = k"
  proof cases
    case 1
    then show ?thesis by (simp add: usefulkernel_shape_def usefulkernel_def)
  next
    case 2
    have mins: "min (REDUCED_KERNEL_SIZE mm) (ny mm - 1) = ny mm - 1"
      "min (REDUCED_KERNEL_SIZE mm) (nx mm - 1) = nx mm - 1"
      using 2 by simp_all
    have "2 * (ny mm - 1) + 1 = 2 * ny mm - 1" "2 * (nx mm - 1) + 1 = 2 * nx mm - 1"
      using assms(2,3) by simp_all
    then show ?thesis
      unfolding usefulkernel_shape_def usefulkernel_def Let_def mins using 2(1) by simp
  qed
  then show "usefulkernel_shape mm = (2 * ny mm - 1, 2 * nx mm - 1)" "usefulkernel mm k = k"
    by simp_all
qed

lemma convolution_Fin:
  assumes ok: "kernel_ok mm k" and here: "set here \<subseteq> sites mm" and q: "q \<in> sites mm"
    and nopbc: "\<not> PBC mm" and full: "full_kernel mm" and d: "distinct here"
    and mom: "\<forall>p\<in>set here. moment mm (fst p) (snd p) = 1"
  shows "convolve2d_same (PBC mm) (ny mm, nx mm) (switched_field mm here)
           (usefulkernel_shape mm) (usefulkernel mm k) (fst q) (snd q)
         = Fin (sum_list (map (\<lambda>p. gm mm p * coupling mm k p q) here))"
proof -
  note qd = sitesD [OF q]
  have pos: "0 < ny mm" "0 < nx mm" using qd by auto
  let ?g = "\<lambda>p. gm mm p * coupling mm k p q"
  have tm: "switched_field mm here (fst p) (snd p)
                * k (fst q + ny mm - 1 - fst p) (snd q + nx mm - 1 - snd p)
              = Fin (if p \<in> set here then ?g p else 0)" if p: "p \<in> sites mm" for p
  proof -
    note pd = sitesD [OF p]
    have idx: "fst q + ny mm - 1 - fst p = ny mm - 1 - fst p + fst q"
      "snd q + nx mm - 1 - snd p = nx mm - 1 - snd p + snd q"
      using pd by auto
    have w: "k (fst q + ny mm - 1 - fst p) (snd q + nx mm - 1 - snd p) = Fin (coupling mm k p q)"
      unfolding idx coupling_def using window_Fin [OF ok p q] by (simp add: window_def)
    show ?thesis
    proof (cases "p \<in> set here")
      case True
      with mom have "moment mm (fst p) (snd p) = 1" by blast
      then have "gm mm p = m mm (fst p) (snd p)" by (simp add: gm_def mmoment_def)
      with True show ?thesis unfolding w by (simp add: switched_field_def)
    next
      case False
      then show ?thesis unfolding w by (simp add: switched_field_def zero_xreal_def)
    qed
  qed
  have "convolve2d_same (PBC mm) (ny mm, nx mm) (switched_field mm here)
           (usefulkernel_shape mm) (usefulkernel mm k) (fst q) (snd q)
        = (\<Sum>y<ny mm. \<Sum>x<nx mm. switched_field mm here y x
              * k (fst q + ny mm - 1 - y) (snd q + nx mm - 1 - x))"
  proof -
    have f: "PBC mm = False" using nopbc by simp
    show ?thesis
      unfolding usefulkernel_full [OF full pos] f
      by (rule convolve_full) (use qd in blast)+
  qed
  also have "\<dots> = (\<Sum>p\<in>sites mm. switched_field mm here (fst p) (snd p)
              * k (fst q + ny mm - 1 - fst p) (snd q + nx mm - 1 - snd p))"
    by (rule grid_sum_sites)
  also have "\<dots> = (\<Sum>p\<in>sites mm. Fin (if p \<in> set here then ?g p else 0))"
    by (rule sum.cong [OF refl]) (rule tm)
  also have "\<dots> = Fin (\<Sum>p\<in>sites mm. if p \<in> set here then ?g p else 0)"
    by (rule sum_Fin)
  also have "(\<Sum>p\<in>sites mm. if p \<in> set here then ?g p else 0) = (\<Sum>p\<in>set here. ?g p)"
    using here by (simp add: sum.inter_restrict [symmetric] Int_absorb1)
  also have "\<dots> = sum_list (map ?g here)"
    using d by (simp add: sum_list_distinct_conv_sum_set)
  finally show ?thesis .
qed

lemma convolvedkernel_exact:
  assumes ok: "kernel_ok mm k" and here: "set here \<subseteq> sites mm" and q: "q \<in> sites mm"
    and exact: "exact_batch mm here"
  shows "convolvedkernel mm k here (fst q) (snd q)
         = Fin (sum_list (map (\<lambda>p. gm mm p * coupling mm k p q) here))"
proof (cases "SIMULTANEOUS_SWITCHES_CONVOLUTION_OR_SUM_CUTOFF mm < length here")
  case True
  with exact have c: "\<not> PBC mm" "full_kernel mm" "distinct here"
    "\<forall>p\<in>set here. moment mm (fst p) (snd p) = 1"
    unfolding exact_batch_def by auto
  from convolution_Fin [OF ok here q c] True show ?thesis
    by (simp add: convolvedkernel_def)
next
  case False
  with direct_sum_Fin [OF ok here q] show ?thesis by (simp add: convolvedkernel_def)
qed

lemma exact_batch_filter: "exact_batch mm ps \<Longrightarrow> exact_batch mm (filter P ps)"
  unfolding exact_batch_def
  using le_trans [OF length_filter_le, of ps "SIMULTANEOUS_SWITCHES_CONVOLUTION_OR_SUM_CUTOFF mm" P]
  by auto

lemma group_term_Fin:
  assumes pos: "0 < unitcell_y mm" "0 < unitcell_x mm"
    and ok: "\<And>y x. y < unitcell_y mm \<Longrightarrow> x < unitcell_x mm \<Longrightarrow> kernel_ok mm (sel (kernels_at mm de y x))"
    and i: "i < unitcell_y mm * unitcell_x mm"
    and ps: "set ps \<subseteq> sites mm" and q: "q \<in> sites mm"
    and exact: "exact_batch mm ps"
  shows "group_term mm P (\<lambda>i. sel (kernels_at mm de (i div unitcell_x mm) (i mod unitcell_x mm)))
            ps i (fst q) (snd q)
         = Fin (2 * (P * (gm mm q * sum_list (map (\<lambda>p. if occupied mm p
               then gm mm p * coupling mm (sel (kernels_at mm de (fst p mod unitcell_y mm) (snd p mod unitcell_x mm))) p q
               else 0) (filter (\<lambda>p. raveled mm p = i) ps)))))"
proof -
  let ?here = "filter (\<lambda>p. raveled mm p = i) ps"
  let ?k = "sel (kernels_at mm de (i div unitcell_x mm) (i mod unitcell_x mm))"
  let ?f = "\<lambda>p. if occupied mm p
               then gm mm p * coupling mm (sel (kernels_at mm de (fst p mod unitcell_y mm) (snd p mod unitcell_x mm))) p q
               else 0"
  have here: "set ?here \<subseteq> sites mm" using ps by auto
  have cellp: "i div unitcell_x mm = fst p mod unitcell_y mm \<and> i mod unitcell_x mm = snd p mod unitcell_x mm"
    if "p \<in> set ?here" for p
    using that raveled_cell [OF pos(2), of p i] by simp
  show ?thesis
  proof (cases "cell_empty mm (i div unitcell_x mm) (i mod unitcell_x mm)")
    case True
    have "?f p = 0" if "p \<in> set ?here" for p
      using cellp [OF that] True by (simp add: occupied_def)
    then have "sum_list (map ?f ?here) = sum_list (map (\<lambda>p. 0) ?here)"
      by (intro arg_cong [where f = sum_list] map_cong refl)
    with True show ?thesis by (simp add: group_term_def zero_xreal_def)
  next
    case False
    have yx: "i div unitcell_x mm < unitcell_y mm" "i mod unitcell_x mm < unitcell_x mm"
      using i pos by (simp_all add: less_mult_imp_div_less)
    have okk: "kernel_ok mm ?k" by (rule ok [OF yx])
    have "convolvedkernel mm ?k ?here (fst q) (snd q)
                 = Fin (sum_list (map (\<lambda>p. gm mm p * coupling mm ?k p q) ?here))"
      by (rule convolvedkernel_exact [OF okk here q exact_batch_filter [OF exact]])
    also have "sum_list (map (\<lambda>p. gm mm p * coupling mm ?k p q) ?here) = sum_list (map ?f ?here)"
    proof (rule arg_cong [where f = sum_list], rule map_cong [OF refl])
      fix p assume "p \<in> set ?here"
      from cellp [OF this] False show "gm mm p * coupling mm ?k p q = ?f p"
        by (simp add: occupied_def)
    qed
    finally show ?thesis using False by (simp add: group_term_def gm_def)
  qed
qed

lemma update_multiple_closed:
  assumes kb: "kernels_built mm self" and kf: "kernels_finite mm (decay_exponent self)"
    and ps: "set ps \<subseteq> sites mm"
    and exact: "exact_batch mm ps"
  shows "\<exists>self'. DipolarEnergy_update_multiple mm self ps = Inr self'
     \<and> DipolarEnergy.more self' = DipolarEnergy.more self
     \<and> prefactor self' = prefactor self \<and> decay_exponent self' = decay_exponent self
     \<and> kernel_unitcell_indices self' = kernel_unitcell_indices self
     \<and> kernel_unitcell self' = kernel_unitcell self
     \<and> kernel_perpself_unitcell self' = kernel_perpself_unitcell self
     \<and> kernel_perpother_unitcell self' = kernel_perpother_unitcell self
     \<and> (\<forall>q\<in>sites mm. E self' (fst q) (snd q) =
           (if q \<in> set ps then - E self (fst q) (snd q) else E self (fst q) (snd q))
           + Fin (2 * (prefactor self * (gm mm q
                        * batch_sum mm (K_normal mm (decay_exponent self)) ps q))))
     \<and> (if USE_PERP_ENERGY mm
         then \<forall>q\<in>sites mm. E_perp self' (fst q) (snd q) =
           (if q \<in> set ps then - E_perp self (fst q) (snd q) else E_perp self (fst q) (snd q))
           + Fin (2 * (prefactor self * (gm mm q
                        * batch_sum mm (K_perpother mm (decay_exponent self)) ps q)))
         else E_perp self' = E_perp self)"
proof -
  note pos = kernels_built_pos [OF kb]
  let ?gs = "filter (\<lambda>i. \<exists>p \<in> set ps. raveled mm p = i) [0..<unitcell_y mm * unitcell_x mm]"
  let ?E0 = "negate_at ps (E self)"
  let ?Ep0 = "if USE_PERP_ENERGY mm then negate_at ps (E_perp self) else E_perp self"
  let ?kn = "\<lambda>i. fst (kernels_at mm (decay_exponent self) (i div unitcell_x mm) (i mod unitcell_x mm))"
  let ?ko = "\<lambda>i. snd (snd (kernels_at mm (decay_exponent self) (i div unitcell_x mm) (i mod unitcell_x mm)))"
  have gs: "\<forall>i\<in>set ?gs. i < unitcell_y mm * unitcell_x mm" by simp
  have dgs: "distinct ?gs" by simp
  have rgs: "\<forall>p\<in>set ps. raveled mm p \<in> set ?gs"
    using raveled_less [OF pos(3,4)] by auto
  from update_groups_sum [OF kb gs, of ps ?E0 ?Ep0] obtain E' Ep' where
    r: "update_groups mm self ps ?gs (?E0, ?Ep0) = Inr (E', Ep')"
    and e: "\<And>u v. E' u v = ?E0 u v + sum_list (map (\<lambda>i. group_term mm (prefactor self) ?kn ps i u v) ?gs)"
    and ep: "\<And>u v. Ep' u v = (if USE_PERP_ENERGY mm then ?Ep0 u v
               + sum_list (map (\<lambda>i. group_term mm (prefactor self) ?ko ps i u v) ?gs) else ?Ep0 u v)"
    by blast
  let ?self = "self\<lparr>E := E', E_perp := Ep'\<rparr>"
  have shape: "\<forall>p \<in> set ps. in_shape (ny mm) (nx mm) p"
    using ps sitesD by (auto simp: in_shape_def)
  have u: "DipolarEnergy_update_multiple mm self ps = Inr ?self"
    using shape r by (simp add: DipolarEnergy_update_multiple_def)
  {
    fix sel :: "xreal array2 \<times> xreal array2 \<times> xreal array2 \<Rightarrow> xreal array2"
    fix q
    assume ok: "\<And>y x. y < unitcell_y mm \<Longrightarrow> x < unitcell_x mm
                  \<Longrightarrow> kernel_ok mm (sel (kernels_at mm (decay_exponent self) y x))"
      and q: "q \<in> sites mm"
    let ?f = "\<lambda>p. if occupied mm p
               then gm mm p * coupling mm (sel (kernels_at mm (decay_exponent self)
                       (fst p mod unitcell_y mm) (snd p mod unitcell_x mm))) p q
               else 0"
    have "sum_list (map (\<lambda>i. group_term mm (prefactor self)
              (\<lambda>i. sel (kernels_at mm (decay_exponent self) (i div unitcell_x mm) (i mod unitcell_x mm)))
              ps i (fst q) (snd q)) ?gs)
        = sum_list (map (\<lambda>i. Fin (2 * (prefactor self * (gm mm q
              * sum_list (map ?f (filter (\<lambda>p. raveled mm p = i) ps)))))) ?gs)"
    proof (rule arg_cong [where f = sum_list], rule map_cong [OF refl])
      fix i assume "i \<in> set ?gs"
      then have "i < unitcell_y mm * unitcell_x mm" by simp
      from group_term_Fin [where sel = sel and de = "decay_exponent self" and P = "prefactor self",
          OF pos(3,4) ok this ps q exact]
      show "group_term mm (prefactor self)
              (\<lambda>i. sel (kernels_at mm (decay_exponent self) (i div unitcell_x mm) (i mod unitcell_x mm)))
              ps i (fst q) (snd q)
            = Fin (2 * (prefactor self * (gm mm q
              * sum_list (map ?f (filter (\<lambda>p. raveled mm p = i) ps)))))"
        by simp
    qed
    also have "\<dots> = Fin (2 * (prefactor self * (gm mm q
              * sum_list (map (\<lambda>i. sum_list (map ?f (filter (\<lambda>p. raveled mm p = i) ps))) ?gs))))"
      by (simp add: sum_list_Fin sum_list_const_mult)
    also have "sum_list (map (\<lambda>i. sum_list (map ?f (filter (\<lambda>p. raveled mm p = i) ps))) ?gs)
                 = sum_list (map ?f ps)"
      by (rule sum_list_group [OF dgs rgs])
    finally have "sum_list (map (\<lambda>i. group_term mm (prefactor self)
              (\<lambda>i. sel (kernels_at mm (decay_exponent self) (i div unitcell_x mm) (i mod unitcell_x mm)))
              ps i (fst q) (snd q)) ?gs)
        = Fin (2 * (prefactor self * (gm mm q * sum_list (map ?f ps))))" .
  }
  note total = this
  have okn: "\<And>y x. y < unitcell_y mm \<Longrightarrow> x < unitcell_x mm
                  \<Longrightarrow> kernel_ok mm (fst (kernels_at mm (decay_exponent self) y x))"
    and oko: "\<And>y x. y < unitcell_y mm \<Longrightarrow> x < unitcell_x mm
                  \<Longrightarrow> kernel_ok mm (snd (snd (kernels_at mm (decay_exponent self) y x)))"
    using kf by (simp_all add: kernels_finite_def)
  have E: "E ?self (fst q) (snd q) =
           (if q \<in> set ps then - E self (fst q) (snd q) else E self (fst q) (snd q))
           + Fin (2 * (prefactor self * (gm mm q
                        * batch_sum mm (K_normal mm (decay_exponent self)) ps q)))"
    if "q \<in> sites mm" for q
    unfolding batch_sum_def K_normal_def
    using total [of fst, OF okn that]
    by (simp add: e negate_at_eq)
  have Ep: "E_perp ?self (fst q) (snd q) =
           (if q \<in> set ps then - E_perp self (fst q) (snd q) else E_perp self (fst q) (snd q))
           + Fin (2 * (prefactor self * (gm mm q
                        * batch_sum mm (K_perpother mm (decay_exponent self)) ps q)))"
    if "q \<in> sites mm" "USE_PERP_ENERGY mm" for q
    unfolding batch_sum_def K_perpother_def
    using total [of "\<lambda>t. snd (snd t)", OF oko that(1)] that(2)
    by (simp add: ep negate_at_eq)
  have Ep_keep: "E_perp ?self = E_perp self" if "\<not> USE_PERP_ENERGY mm"
    using that ep by (auto simp: fun_eq_iff)
  show ?thesis
    by (rule exI [of _ ?self]) (use u E Ep Ep_keep in simp)
qed

lemma switch_at_simps [simp]:
  "ny (switch_at ps mm) = ny mm" "nx (switch_at ps mm) = nx mm"
  "in_plane (switch_at ps mm) = in_plane mm" "PBC (switch_at ps mm) = PBC mm"
  "USE_PERP_ENERGY (switch_at ps mm) = USE_PERP_ENERGY mm"
  "moment (switch_at ps mm) = moment mm" "xx (switch_at ps mm) = xx mm" "yy (switch_at ps mm) = yy mm"
  "orientation (switch_at ps mm) = orientation mm" "occupation (switch_at ps mm) = occupation mm"
  "unitcell_y (switch_at ps mm) = unitcell_y mm" "unitcell_x (switch_at ps mm) = unitcell_x mm"
  "SIMULTANEOUS_SWITCHES_CONVOLUTION_OR_SUM_CUTOFF (switch_at ps mm)
     = SIMULTANEOUS_SWITCHES_CONVOLUTION_OR_SUM_CUTOFF mm"
  "REDUCED_KERNEL_SIZE (switch_at ps mm) = REDUCED_KERNEL_SIZE mm"
  "nearest_neighbors_shape (switch_at ps mm) = nearest_neighbors_shape mm"
  "nearest_neighbors (switch_at ps mm) = nearest_neighbors mm"
  by (simp_all add: switch_at_def)

lemma switch_at_m: "m (switch_at ps mm) y x = (if (y, x) \<in> set ps then - m mm y x else m mm y x)"
  by (simp add: switch_at_def)

lemma distance_switch [simp]:
  "rrx (switch_at ps mm) = rrx mm" "rry (switch_at ps mm) = rry mm"
  by (simp_all add: rrx_def rry_def)

lemma rr_sq_switch [simp]: "rr_sq (switch_at ps mm) = rr_sq mm"
  unfolding rr_sq_def distance_switch by (rule refl)

lemma rr_inv_switch [simp]: "rr_inv (switch_at ps mm) = rr_inv mm"
  unfolding rr_inv_def by simp

lemma rr_inv3_switch [simp]: "rr_inv3 (switch_at ps mm) = rr_inv3 mm"
  unfolding rr_inv3_def by simp

lemma mirrored_switch [simp]:
  "rinv3 (switch_at ps mm) = rinv3 mm" "ux (switch_at ps mm) = ux mm" "uy (switch_at ps mm) = uy mm"
  unfolding rinv3_def ux_def uy_def by simp_all

lemma slice_switch [simp]:
  "unitcell_slice (switch_at ps mm) = unitcell_slice mm"
  "toolargematrix (switch_at ps mm) = toolargematrix mm"
  unfolding unitcell_slice_def toolargematrix_def by simp_all

lemma kernels_at_switch [simp]: "kernels_at (switch_at ps mm) = kernels_at mm"
  unfolding kernels_at_def mirrored_switch slice_switch switch_at_simps by (rule refl)

lemma cell_empty_switch [simp]: "cell_empty (switch_at ps mm) = cell_empty mm"
  by (simp add: fun_eq_iff cell_empty_def)

lemma geometry_switch [simp]:
  "sites (switch_at ps mm) = sites mm"
  "occupied (switch_at ps mm) = occupied mm"
  "window (switch_at ps mm) = window mm"
  "coupling (switch_at ps mm) = coupling mm"
  "K_normal (switch_at ps mm) = K_normal mm"
  "K_perpself (switch_at ps mm) = K_perpself mm"
  "K_perpother (switch_at ps mm) = K_perpother mm"
  "kernels_built (switch_at ps mm) = kernels_built mm"
  "kernels_finite (switch_at ps mm) = kernels_finite mm"
  "kernel_ok (switch_at ps mm) = kernel_ok mm"
  "meshgrid_ok (switch_at ps mm) = meshgrid_ok mm"
  "exact_batch (switch_at ps mm) = exact_batch mm"
  by (simp_all add: fun_eq_iff sites_def occupied_def window_def coupling_def K_normal_def
      K_perpself_def K_perpother_def kernels_built_def kernels_finite_def kernel_ok_def
      meshgrid_ok_def exact_batch_def full_kernel_def)

lemma gm_switch: "gm (switch_at ps mm) q = (if q \<in> set ps then - gm mm q else gm mm q)"
  by (cases q) (simp add: gm_def mmoment_def switch_at_m)

lemma switch_at_twice:
  assumes "p \<notin> set ps"
  shows "switch_at ps (switch_at [p] mm) = switch_at (p # ps) mm"
  using assms by (auto simp: switch_at_def fun_eq_iff)

lemma uminus_add_Fin: "- (a + Fin c) = - a + Fin (- c)"
  by (cases a) simp_all

lemma add_Fin_Fin: "a + Fin c + Fin d = a + Fin (c + d)"
  by (simp add: add.assoc)

lemma batch_sum_Cons:
  "batch_sum mm K (p # ps) q
     = (if occupied mm p then gm mm p * coupling mm (K p) p q else 0) + batch_sum mm K ps q"
  by (simp add: batch_sum_def)

lemma coupling_centre:
  assumes "kernel_ok mm k" "p \<in> sites mm"
  shows "coupling mm k p p = 0"
  using window_centre [OF assms] by (simp add: coupling_def)

lemma singles_closed:
  assumes kb: "kernels_built mm self" and kf: "kernels_finite mm (decay_exponent self)"
    and ps: "set ps \<subseteq> sites mm" and d: "distinct ps" and occ: "\<forall>p\<in>set ps. occupied mm p"
  shows "\<exists>self'. apply_switches (map Single ps) (mm, Dipolar self)
                   = Inr (switch_at ps mm, Dipolar self')
     \<and> kernels_built mm self' \<and> decay_exponent self' = decay_exponent self
     \<and> prefactor self' = prefactor self
     \<and> (\<forall>q\<in>sites mm. E self' (fst q) (snd q) =
           (if q \<in> set ps then - E self (fst q) (snd q) else E self (fst q) (snd q))
           + Fin (2 * (prefactor self * (gm (switch_at ps mm) q
                        * batch_sum (switch_at ps mm) (K_normal mm (decay_exponent self)) ps q))))
     \<and> (if USE_PERP_ENERGY mm
         then \<forall>q\<in>sites mm. E_perp self' (fst q) (snd q) =
           (if q \<in> set ps then - E_perp self (fst q) (snd q) else E_perp self (fst q) (snd q))
           + Fin (2 * (prefactor self * (gm (switch_at ps mm) q
                        * batch_sum (switch_at ps mm) (K_perpother mm (decay_exponent self)) ps q)))
         else E_perp self' = E_perp self)"
  using kb kf ps d occ
proof (induction ps arbitrary: mm self)
  case Nil
  have "switch_at [] mm = mm" by (simp add: switch_at_def)
  then show ?case using Nil by (simp add: batch_sum_def zero_xreal_def [symmetric])
next
  case (Cons p ps)
  let ?mm1 = "switch_at [p] mm"
  let ?mm2 = "switch_at (p # ps) mm"
  let ?de = "decay_exponent self"
  let ?P = "prefactor self"
  from Cons.prems have p: "p \<in> sites mm" and pocc: "occupied mm p" and pnot: "p \<notin> set ps"
    and rest: "set ps \<subseteq> sites mm" "distinct ps" "\<forall>p\<in>set ps. occupied mm p"
    by auto
  have kb1: "kernels_built ?mm1 self" and kf1: "kernels_finite ?mm1 ?de"
    using Cons.prems(1,2) by simp_all
  have p1: "p \<in> sites ?mm1" "occupied ?mm1 p" using p pocc by simp_all
  from update_single_closed [OF kb1 kf1 p1, unfolded geometry_switch switch_at_simps] obtain d1 where
    u1: "DipolarEnergy_update_single ?mm1 self p = Inr d1"
    and f1: "prefactor d1 = ?P" "decay_exponent d1 = ?de"
      "kernel_unitcell_indices d1 = kernel_unitcell_indices self"
      "kernel_unitcell d1 = kernel_unitcell self"
      "kernel_perpself_unitcell d1 = kernel_perpself_unitcell self"
      "kernel_perpother_unitcell d1 = kernel_perpother_unitcell self"
    and e1: "\<And>q. q \<in> sites mm \<Longrightarrow> E d1 (fst q) (snd q) =
           (if q = p
            then - (E self (fst q) (snd q) + Fin (2 * (?P * gm ?mm1 p
                      * (gm ?mm1 q * coupling mm (K_normal mm ?de p) p q))))
            else E self (fst q) (snd q) + Fin (2 * (?P * gm ?mm1 p
                      * (gm ?mm1 q * coupling mm (K_normal mm ?de p) p q))))"
    and ep1: "if USE_PERP_ENERGY mm
         then \<forall>q\<in>sites mm. E_perp d1 (fst q) (snd q) =
           (if q = p
            then - (E_perp self (fst q) (snd q) + Fin (2 * (?P * gm ?mm1 p
                      * (gm ?mm1 q * coupling mm (K_perpother mm ?de p) p q))))
            else E_perp self (fst q) (snd q) + Fin (2 * (?P * gm ?mm1 p
                      * (gm ?mm1 q * coupling mm (K_perpother mm ?de p) p q))))
         else E_perp d1 = E_perp self"
    by blast
  have kbd1: "kernels_built ?mm1 d1"
    using kb1 f1 by (simp add: kernels_built_def)
  have kfd1: "kernels_finite ?mm1 (decay_exponent d1)"
    using kf1 f1 by simp
  have rest1: "set ps \<subseteq> sites ?mm1" "\<forall>p\<in>set ps. occupied ?mm1 p"
    using rest by simp_all
  from Cons.IH [OF kbd1 kfd1 rest1(1) rest(2) rest1(2), unfolded geometry_switch switch_at_simps f1]
  obtain d2 where
    r2: "apply_switches (map Single ps) (?mm1, Dipolar d1) = Inr (switch_at ps ?mm1, Dipolar d2)"
    and kb2: "kernels_built mm d2" and f2: "decay_exponent d2 = ?de" "prefactor d2 = ?P"
    and e2: "\<And>q. q \<in> sites mm \<Longrightarrow> E d2 (fst q) (snd q) =
           (if q \<in> set ps then - E d1 (fst q) (snd q) else E d1 (fst q) (snd q))
           + Fin (2 * (?P * (gm (switch_at ps ?mm1) q
                        * batch_sum (switch_at ps ?mm1) (K_normal mm ?de) ps q)))"
    and ep2: "if USE_PERP_ENERGY mm
         then \<forall>q\<in>sites mm. E_perp d2 (fst q) (snd q) =
           (if q \<in> set ps then - E_perp d1 (fst q) (snd q) else E_perp d1 (fst q) (snd q))
           + Fin (2 * (?P * (gm (switch_at ps ?mm1) q
                        * batch_sum (switch_at ps ?mm1) (K_perpother mm ?de) ps q)))
         else E_perp d2 = E_perp d1"
    by blast
  have mm2: "switch_at ps ?mm1 = ?mm2" by (rule switch_at_twice [OF pnot])
  have run: "apply_switches (map Single (p # ps)) (mm, Dipolar self) = Inr (?mm2, Dipolar d2)"
    using u1 r2 by (simp add: and_then_def mm2)
  note ok = kernels_finite_K [OF Cons.prems(2) kernels_built_pos(3,4) [OF Cons.prems(1)], of p]
  have gp: "gm ?mm1 p = gm ?mm2 p" by (simp add: gm_switch)
  have gq: "gm ?mm1 q = (if q \<in> set ps then - gm ?mm2 q else gm ?mm2 q)" for q
    using pnot by (auto simp: gm_switch)
  have step: "A2 (fst q) (snd q) =
           (if q \<in> set (p # ps) then - A (fst q) (snd q) else A (fst q) (snd q))
           + Fin (2 * (?P * (gm ?mm2 q * batch_sum ?mm2 K (p # ps) q)))"
    if q: "q \<in> sites mm" and kok: "kernel_ok mm (K p)"
      and a1: "A1 (fst q) (snd q) =
           (if q = p
            then - (A (fst q) (snd q) + Fin (2 * (?P * gm ?mm1 p * (gm ?mm1 q * coupling mm (K p) p q))))
            else A (fst q) (snd q) + Fin (2 * (?P * gm ?mm1 p * (gm ?mm1 q * coupling mm (K p) p q))))"
      and a2: "A2 (fst q) (snd q) =
           (if q \<in> set ps then - A1 (fst q) (snd q) else A1 (fst q) (snd q))
           + Fin (2 * (?P * (gm ?mm2 q * batch_sum ?mm2 K ps q)))"
    for K :: "nat \<times> nat \<Rightarrow> xreal array2" and A A1 A2 :: "xreal array2" and q
  proof (cases "q = p")
    case True
    then have nin: "q \<notin> set ps" using pnot by simp
    note cc = coupling_centre [OF kok p]
    have c0: "coupling mm (K p) p q = 0"
      using cc True by simp
    have b1: "A1 (fst q) (snd q) = - A (fst q) (snd q)"
      using a1 True by (simp add: cc uminus_add_Fin zero_xreal_def [symmetric])
    have b2: "A2 (fst q) (snd q) = - A (fst q) (snd q)
                + Fin (2 * (?P * (gm ?mm2 q * batch_sum ?mm2 K ps q)))"
      using a2 nin by (simp add: b1)
    have b3: "batch_sum ?mm2 K (p # ps) q = batch_sum ?mm2 K ps q"
      using c0 by (simp add: batch_sum_Cons)
    show ?thesis unfolding b2 b3 using True by simp
  next
    case False
    show ?thesis
    proof (cases "q \<in> set ps")
      case True
      with False show ?thesis using pocc pnot
        by (simp add: a2 a1 batch_sum_Cons uminus_add_Fin add_Fin_Fin gp gq algebra_simps)
    next
      case nin: False
      with False show ?thesis using pocc pnot
        by (simp add: a2 a1 batch_sum_Cons uminus_add_Fin add_Fin_Fin gp gq algebra_simps)
    qed
  qed
  have E: "E d2 (fst q) (snd q) =
           (if q \<in> set (p # ps) then - E self (fst q) (snd q) else E self (fst q) (snd q))
           + Fin (2 * (?P * (gm ?mm2 q * batch_sum ?mm2 (K_normal mm ?de) (p # ps) q)))"
    if "q \<in> sites mm" for q
    using step [where K = "K_normal mm ?de" and A = "E self" and ?A1.0 = "E d1" and ?A2.0 = "E d2",
        OF that ok(1) e1 [OF that]] e2 [OF that] by (simp add: mm2)
  have Ep: "E_perp d2 (fst q) (snd q) =
           (if q \<in> set (p # ps) then - E_perp self (fst q) (snd q) else E_perp self (fst q) (snd q))
           + Fin (2 * (?P * (gm ?mm2 q * batch_sum ?mm2 (K_perpother mm ?de) (p # ps) q)))"
    if "q \<in> sites mm" "USE_PERP_ENERGY mm" for q
    using step [where K = "K_perpother mm ?de" and A = "E_perp self" and ?A1.0 = "E_perp d1"
        and ?A2.0 = "E_perp d2", OF that(1) ok(3)] ep1 ep2 that
    by (simp add: mm2)
  have Ek: "E_perp d2 = E_perp self" if "\<not> USE_PERP_ENERGY mm"
    using ep1 ep2 that by simp
  show ?case
    by (rule exI [of _ d2]) (use run kb2 f2 E Ep Ek in simp)
qed

lemma kernels_finite_of:
  assumes "meshgrid_ok mm" "0 < ny mm" "0 < nx mm" "de < 0"
  shows "kernels_finite mm de"
  unfolding kernels_finite_def using kernels_at_ok [OF assms] by blast

lemma kernels_built_cong:
  assumes "kernel_unitcell_indices d' = kernel_unitcell_indices d"
    "kernel_unitcell d' = kernel_unitcell d"
    "kernel_perpself_unitcell d' = kernel_perpself_unitcell d"
    "kernel_perpother_unitcell d' = kernel_perpother_unitcell d"
    "decay_exponent d' = decay_exponent d"
  shows "kernels_built mm d' = kernels_built mm d"
  unfolding kernels_built_def assms by (rule refl)

lemma update_keeps:
  assumes "DipolarEnergy_update mm d = Inr d'"
  shows "kernels_built mm d' = kernels_built mm d" "decay_exponent d' = decay_exponent d"
proof -
  from assms have "kernel_unitcell_indices d' = kernel_unitcell_indices d
      \<and> kernel_unitcell d' = kernel_unitcell d
      \<and> kernel_perpself_unitcell d' = kernel_perpself_unitcell d
      \<and> kernel_perpother_unitcell d' = kernel_perpother_unitcell d
      \<and> decay_exponent d' = decay_exponent d"
    by (auto simp: DipolarEnergy_update_def split: sum.splits prod.splits)
  then have f: "kernel_unitcell_indices d' = kernel_unitcell_indices d"
    "kernel_unitcell d' = kernel_unitcell d"
    "kernel_perpself_unitcell d' = kernel_perpself_unitcell d"
    "kernel_perpother_unitcell d' = kernel_perpother_unitcell d"
    "decay_exponent d' = decay_exponent d"
    by blast+
  show "kernels_built mm d' = kernels_built mm d" by (rule kernels_built_cong) (rule f)+
  show "decay_exponent d' = decay_exponent d" by (rule f)
qed

lemma update_single_keeps:
  assumes "DipolarEnergy_update_single mm d p = Inr d'"
  shows "kernels_built mm d' = kernels_built mm d" "decay_exponent d' = decay_exponent d"
proof -
  from assms have "kernel_unitcell_indices d' = kernel_unitcell_indices d
      \<and> kernel_unitcell d' = kernel_unitcell d
      \<and> kernel_perpself_unitcell d' = kernel_perpself_unitcell d
      \<and> kernel_perpother_unitcell d' = kernel_perpother_unitcell d
      \<and> decay_exponent d' = decay_exponent d"
    by (auto simp: DipolarEnergy_update_single_def Let_def split: if_splits)
  then have f: "kernel_unitcell_indices d' = kernel_unitcell_indices d"
    "kernel_unitcell d' = kernel_unitcell d"
    "kernel_perpself_unitcell d' = kernel_perpself_unitcell d"
    "kernel_perpother_unitcell d' = kernel_perpother_unitcell d"
    "decay_exponent d' = decay_exponent d"
    by blast+
  show "kernels_built mm d' = kernels_built mm d" by (rule kernels_built_cong) (rule f)+
  show "decay_exponent d' = decay_exponent d" by (rule f)
qed

lemma update_multiple_keeps:
  assumes "DipolarEnergy_update_multiple mm d ps = Inr d'"
  shows "kernels_built mm d' = kernels_built mm d" "decay_exponent d' = decay_exponent d"
proof -
  from assms have "kernel_unitcell_indices d' = kernel_unitcell_indices d
      \<and> kernel_unitcell d' = kernel_unitcell d
      \<and> kernel_perpself_unitcell d' = kernel_perpself_unitcell d
      \<and> kernel_perpother_unitcell d' = kernel_perpother_unitcell d
      \<and> decay_exponent d' = decay_exponent d"
    by (auto simp: DipolarEnergy_update_multiple_def split: if_splits sum.splits prod.splits)
  then have f: "kernel_unitcell_indices d' = kernel_unitcell_indices d"
    "kernel_unitcell d' = kernel_unitcell d"
    "kernel_perpself_unitcell d' = kernel_perpself_unitcell d"
    "kernel_perpother_unitcell d' = kernel_perpother_unitcell d"
    "decay_exponent d' = decay_exponent d"
    by blast+
  show "kernels_built mm d' = kernels_built mm d" by (rule kernels_built_cong) (rule f)+
  show "decay_exponent d' = decay_exponent d" by (rule f)
qed

lemma and_then_Inr:
  "and_then r f = Inr v \<longleftrightarrow> (\<exists>u. r = Inr u \<and> f u = Inr v)"
  by (cases r) (simp_all add: and_then_def)

lemma and_then_simps [simp]:
  "and_then (Inr u) f = f u" "and_then (Inl e) f = Inl e"
  by (simp_all add: and_then_def)

lemma reachable_kernels_built:
  assumes "reachable s"
  shows "case snd s of Dipolar d \<Rightarrow> kernels_built (fst s) d | _ \<Rightarrow> True"
  using assms
proof (induction rule: reachable.induct)
  case (reach_initialize mm params c)
  show ?case
  proof (cases params)
    case (DipolarParams P de)
    with reach_initialize obtain d where c: "c = Dipolar d"
      and i: "DipolarEnergy_initialize mm P de = Inr d"
      by (auto simp: and_then_Inr)
    from i obtain d0 where i0: "DipolarEnergy__initialize mm (DipolarEnergy_new P de) = Inr d0"
      and u: "DipolarEnergy_update mm d0 = Inr d"
      by (auto simp: DipolarEnergy_initialize_def split: sum.splits)
    from initialize_kernels_built(1) [OF i0] update_keeps(1) [OF u] show ?thesis
      by (simp add: c)
  next
    case (ZeemanParams a b)
    with reach_initialize show ?thesis by auto
  next
    case (ExchangeParams j)
    with reach_initialize show ?thesis by auto
  qed
next
  case (reach_switch mm c ps)
  then show ?case by (cases c) simp_all
next
  case (reach_update mm c c')
  show ?case
  proof (cases c)
    case (Dipolar d)
    with reach_update obtain d' where "c' = Dipolar d'" "DipolarEnergy_update mm d = Inr d'"
      by (auto simp: and_then_Inr)
    with reach_update.IH Dipolar update_keeps(1) [of mm d d'] show ?thesis by simp
  next
    case (Zeeman z)
    with reach_update show ?thesis by auto
  next
    case (Exchange e)
    with reach_update show ?thesis by auto
  qed
next
  case (reach_update_single mm c p c')
  show ?case
  proof (cases c)
    case (Dipolar d)
    with reach_update_single obtain d' where
      "c' = Dipolar d'" "DipolarEnergy_update_single mm d p = Inr d'"
      by (auto simp: and_then_Inr)
    with reach_update_single.IH Dipolar update_single_keeps(1) [of mm d p d'] show ?thesis
      by simp
  next
    case (Zeeman z)
    with reach_update_single show ?thesis by (auto simp: and_then_Inr)
  next
    case (Exchange e)
    with reach_update_single show ?thesis by (auto simp: and_then_Inr)
  qed
next
  case (reach_update_multiple mm c ps c')
  show ?case
  proof (cases c)
    case (Dipolar d)
    with reach_update_multiple obtain d' where
      "c' = Dipolar d'" "DipolarEnergy_update_multiple mm d ps = Inr d'"
      by (auto simp: and_then_Inr)
    with reach_update_multiple.IH Dipolar update_multiple_keeps(1) [of mm d ps d'] show ?thesis
      by simp
  next
    case (Zeeman z)
    with reach_update_multiple show ?thesis by (auto simp: and_then_Inr)
  next
    case (Exchange e)
    with reach_update_multiple show ?thesis by (auto simp: and_then_Inr)
  qed
next
  case (reach_set_field mm z new_magnitude new_angle)
  show ?case by simp
qed

lemma reachable_dipolar: "reachable (mm, Dipolar d) \<Longrightarrow> kernels_built mm d"
  using reachable_kernels_built [of "(mm, Dipolar d)"] by simp

text \<open>
  Claim C3, for finite kernels and the batches that are handled exactly. The lattice
  coordinates form a regular mesh grid (\<open>meshgrid_ok\<close>) and \<open>decay_exponent\<close> is negative,
  so that every kernel entry is finite and the centre entry is zero. Then, at any point of
  a run of the dipolar contribution, switching the distinct, occupied magnets \<open>ps\<close> inside
  the lattice one after the other, each switch followed by its \<^verbatim>\<open>update_single\<close>, and
  switching them all at once followed by one \<^verbatim>\<open>update_multiple\<close>, both succeed and end
  with the same \<open>E\<close> and \<open>E_perp\<close> on the lattice. The batch has to stay on the direct-sum
  branch, or to take the convolution on the whole kernel, without periodic wrapping, over
  magnets of unit moment (\<open>exact_batch\<close>). On the convolution branch with a cut kernel
  the two differ (\<open>batch_differs_from_singles_counterexample\<close>).
\<close>

theorem batch_equals_singles:
  assumes r: "reachable (mm, Dipolar self)" and mesh: "meshgrid_ok mm"
    and de: "decay_exponent self < 0"
    and ps: "\<forall>p\<in>set ps. in_shape (ny mm) (nx mm) p \<and> occupied mm p" and d: "distinct ps"
    and exact: "exact_batch mm ps"
  shows "\<exists>d1 d2. apply_switches (map Single ps) (mm, Dipolar self)
                    = Inr (switch_at ps mm, Dipolar d1)
     \<and> apply_switch (Multiple ps) (mm, Dipolar self) = Inr (switch_at ps mm, Dipolar d2)
     \<and> same_grid mm (E d1) (E d2) \<and> same_grid mm (E_perp d1) (E_perp d2)"
proof -
  note kb = reachable_dipolar [OF r]
  note pos = kernels_built_pos [OF kb]
  have kf: "kernels_finite mm (decay_exponent self)"
    using kernels_finite_of [OF mesh _ _ de] kb by (simp add: kernels_built_def)
  have sub: "set ps \<subseteq> sites mm"
    using ps by (auto simp: sites_def in_shape_def split: prod.splits)
  have occ: "\<forall>p\<in>set ps. occupied mm p" using ps by blast
  from singles_closed [OF kb kf sub d occ] obtain d1 where
    s: "apply_switches (map Single ps) (mm, Dipolar self) = Inr (switch_at ps mm, Dipolar d1)"
    and e1: "\<forall>q\<in>sites mm. E d1 (fst q) (snd q) =
           (if q \<in> set ps then - E self (fst q) (snd q) else E self (fst q) (snd q))
           + Fin (2 * (prefactor self * (gm (switch_at ps mm) q
                        * batch_sum (switch_at ps mm) (K_normal mm (decay_exponent self)) ps q)))"
    and p1: "if USE_PERP_ENERGY mm
         then \<forall>q\<in>sites mm. E_perp d1 (fst q) (snd q) =
           (if q \<in> set ps then - E_perp self (fst q) (snd q) else E_perp self (fst q) (snd q))
           + Fin (2 * (prefactor self * (gm (switch_at ps mm) q
                        * batch_sum (switch_at ps mm) (K_perpother mm (decay_exponent self)) ps q)))
         else E_perp d1 = E_perp self"
    by blast
  have kb': "kernels_built (switch_at ps mm) self" using kb by simp
  have kf': "kernels_finite (switch_at ps mm) (decay_exponent self)" using kf by simp
  have sub': "set ps \<subseteq> sites (switch_at ps mm)" using sub by simp
  have exact': "exact_batch (switch_at ps mm) ps" using exact by simp
  from update_multiple_closed [OF kb' kf' sub' exact', unfolded geometry_switch switch_at_simps]
  obtain d2 where
    b: "DipolarEnergy_update_multiple (switch_at ps mm) self ps = Inr d2"
    and e2: "\<forall>q\<in>sites mm. E d2 (fst q) (snd q) =
           (if q \<in> set ps then - E self (fst q) (snd q) else E self (fst q) (snd q))
           + Fin (2 * (prefactor self * (gm (switch_at ps mm) q
                        * batch_sum (switch_at ps mm) (K_normal mm (decay_exponent self)) ps q)))"
    and p2: "if USE_PERP_ENERGY mm
         then \<forall>q\<in>sites mm. E_perp d2 (fst q) (snd q) =
           (if q \<in> set ps then - E_perp self (fst q) (snd q) else E_perp self (fst q) (snd q))
           + Fin (2 * (prefactor self * (gm (switch_at ps mm) q
                        * batch_sum (switch_at ps mm) (K_perpother mm (decay_exponent self)) ps q)))
         else E_perp d2 = E_perp self"
    by blast
  have m: "apply_switch (Multiple ps) (mm, Dipolar self) = Inr (switch_at ps mm, Dipolar d2)"
    by (simp add: b)
  have g: "same_grid mm (E d1) (E d2)"
    unfolding same_grid_def
  proof (intro allI impI)
    fix y x assume "y < ny mm" "x < nx mm"
    then have "(y, x) \<in> sites mm" by (simp add: sites_def)
    from bspec [OF e1 this] bspec [OF e2 this] show "E d1 y x = E d2 y x" by simp
  qed
  have gp: "same_grid mm (E_perp d1) (E_perp d2)"
  proof (cases "USE_PERP_ENERGY mm")
    case True
    show ?thesis unfolding same_grid_def
    proof (intro allI impI)
      fix y x assume "y < ny mm" "x < nx mm"
      then have q: "(y, x) \<in> sites mm" by (simp add: sites_def)
      from p1 p2 True have "\<forall>q\<in>sites mm. E_perp d1 (fst q) (snd q) = E_perp d2 (fst q) (snd q)"
        by simp
      from bspec [OF this q] show "E_perp d1 y x = E_perp d2 y x" by simp
    qed
  next
    case False
    with p1 p2 show ?thesis by (simp add: same_grid_def)
  qed
  from s m g gp show ?thesis by blast
qed

lemma initialize_dipolar:
  assumes mesh: "meshgrid_ok mm" and de: "de < 0"
    and pos: "0 < ny mm" "0 < nx mm" "0 < unitcell_y mm" "0 < unitcell_x mm"
      "unitcell_y mm \<le> ny mm" "unitcell_x mm \<le> nx mm"
  shows "\<exists>d. initialize mm (DipolarParams P de) = Inr (Dipolar d)
     \<and> kernels_built mm d \<and> prefactor d = P \<and> decay_exponent d = de
     \<and> (\<forall>p\<in>sites mm. E d (fst p) (snd p) = Fin (local_energy mm P (K_normal mm de) p))
     \<and> (\<forall>p\<in>sites mm. E_perp d (fst p) (snd p)
            = (if USE_PERP_ENERGY mm then Fin (local_energy mm P (K_perpself mm de) p) else 0))"
proof -
  from initialize_succeeds [OF pos, of "DipolarEnergy_new P de"] obtain d0 where
    i0: "DipolarEnergy__initialize mm (DipolarEnergy_new P de) = Inr d0" by blast
  note f = initialize_kernels_built [OF i0]
  have f': "decay_exponent d0 = de" "prefactor d0 = P" "E_perp d0 = (\<lambda>y x. 0)"
    using f by (simp_all add: DipolarEnergy_new_def)
  have kf: "kernels_finite mm (decay_exponent d0)"
    unfolding f'(1) by (rule kernels_finite_of [OF mesh pos(1,2) de])
  from update_closed [OF f(1) kf, unfolded f'] obtain d where
    u: "DipolarEnergy_update mm d0 = Inr d"
    and k: "kernel_unitcell_indices d = kernel_unitcell_indices d0"
      "kernel_unitcell d = kernel_unitcell d0"
      "kernel_perpself_unitcell d = kernel_perpself_unitcell d0"
      "kernel_perpother_unitcell d = kernel_perpother_unitcell d0"
    and pd: "prefactor d = P" "decay_exponent d = de"
    and e: "\<forall>p\<in>sites mm. E d (fst p) (snd p) = Fin (local_energy mm P (K_normal mm de) p)"
    and ep: "if USE_PERP_ENERGY mm
         then \<forall>p\<in>sites mm. E_perp d (fst p) (snd p)
                = Fin (local_energy mm P (K_perpself mm de) p)
         else E_perp d = (\<lambda>y x. 0)"
    by blast
  have kb: "kernels_built mm d"
    using kernels_built_cong [OF k, of mm] f(1) pd(2) f'(1) by simp
  have i: "initialize mm (DipolarParams P de) = Inr (Dipolar d)"
    by (simp add: DipolarEnergy_initialize_def i0 u)
  have ep': "\<forall>p\<in>sites mm. E_perp d (fst p) (snd p)
            = (if USE_PERP_ENERGY mm then Fin (local_energy mm P (K_perpself mm de) p) else 0)"
    using ep by (cases "USE_PERP_ENERGY mm") simp_all
  from i kb pd e ep' show ?thesis by blast
qed

lemma chain3_simps [simp]:
  "ny (chain3 c) = 1" "nx (chain3 c) = 3"
  "in_plane (chain3 c) = False" "PBC (chain3 c) = False"
  "USE_PERP_ENERGY (chain3 c) = True"
  "m (chain3 c) = (\<lambda>y x. 1)" "moment (chain3 c) = (\<lambda>y x. 1)"
  "xx (chain3 c) = (\<lambda>y x. real x)" "yy (chain3 c) = (\<lambda>y x. real y)"
  "occupation (chain3 c) = (\<lambda>y x. 1)"
  "unitcell_y (chain3 c) = 1" "unitcell_x (chain3 c) = 1"
  "SIMULTANEOUS_SWITCHES_CONVOLUTION_OR_SUM_CUTOFF (chain3 c) = c"
  "REDUCED_KERNEL_SIZE (chain3 c) = 1"
  by (simp_all add: chain3_def)

lemma chain3_mesh: "meshgrid_ok (chain3 c)"
  by (simp add: meshgrid_ok_def)

lemma half_powr: "(4::real) powr - (1 / 2) = 1 / 2"
proof -
  have "(4::real) powr (1 / 2) = 2"
    by (simp add: powr_half_sqrt) 
  then show ?thesis
    by (simp add: powr_minus field_simps)
qed

lemma eighth_powr: "((1::real) / 2) powr 3 = 1 / 8"
proof -
  have "((1::real) / 2) powr 3 = (1 / 2) ^ 3"
    by (rule powr_numeral) simp
  then show ?thesis by (simp add: power3_eq_cube)
qed

lemma row_distance:
  assumes "ny mm = 1" "xx mm = (\<lambda>y x. real x)" "yy mm = (\<lambda>y x. real y)"
  shows "rr_inv3 mm (- 3) 0 0 = Fin 0" "rr_inv3 mm (- 3) 0 1 = Fin 1"
    "rr_inv3 mm (- 3) 0 2 = Fin (1 / 8)"
proof -
  have sq: "rr_sq mm 0 0 = PInf" "rr_sq mm 0 1 = Fin 1" "rr_sq mm 0 2 = Fin 4"
    using assms by (simp_all add: rr_sq_def rrx_def rry_def)
  have inv: "rr_inv mm 0 0 = Fin 0" "rr_inv mm 0 1 = Fin 1" "rr_inv mm 0 2 = Fin (1 / 2)"
    unfolding rr_inv_def sq by (simp_all add: xpow_def half_powr)
  show "rr_inv3 mm (- 3) 0 0 = Fin 0" "rr_inv3 mm (- 3) 0 1 = Fin 1"
    "rr_inv3 mm (- 3) 0 2 = Fin (1 / 8)"
    unfolding rr_inv3_def inv by (simp_all add: xpow_def eighth_powr)
qed

lemma chain3_kernel:
  "fst (kernels_at (chain3 c) (- 3) 0 0) 0 0 = Fin (1 / 80000000)"
  "fst (kernels_at (chain3 c) (- 3) 0 0) 0 1 = Fin (1 / 10000000)"
  "fst (kernels_at (chain3 c) (- 3) 0 0) 0 2 = Fin 0"
  "fst (kernels_at (chain3 c) (- 3) 0 0) 0 3 = Fin (1 / 10000000)"
  "fst (kernels_at (chain3 c) (- 3) 0 0) 0 4 = Fin (1 / 80000000)"
  using row_distance [of "chain3 c"]
  by (simp_all add: kernels_at_def Let_def rinv3_def mirror4_eq absdiff_def
      unitcell_slice_def toolargematrix_def)

lemma update_multiple_groups:
  assumes kb: "kernels_built mm self" and ps: "set ps \<subseteq> sites mm"
  shows "\<exists>self'. DipolarEnergy_update_multiple mm self ps = Inr self'
     \<and> (\<forall>u v. E self' u v = negate_at ps (E self) u v
           + sum_list (map (\<lambda>i. group_term mm (prefactor self)
               (\<lambda>i. fst (kernels_at mm (decay_exponent self) (i div unitcell_x mm) (i mod unitcell_x mm)))
               ps i u v)
             (filter (\<lambda>i. \<exists>p \<in> set ps. raveled mm p = i) [0..<unitcell_y mm * unitcell_x mm])))"
proof -
  let ?gs = "filter (\<lambda>i. \<exists>p \<in> set ps. raveled mm p = i) [0..<unitcell_y mm * unitcell_x mm]"
  let ?E0 = "negate_at ps (E self)"
  let ?Ep0 = "if USE_PERP_ENERGY mm then negate_at ps (E_perp self) else E_perp self"
  have gs: "\<forall>i\<in>set ?gs. i < unitcell_y mm * unitcell_x mm" by simp
  from update_groups_sum [OF kb gs, of ps ?E0 ?Ep0] obtain E' Ep' where
    r: "update_groups mm self ps ?gs (?E0, ?Ep0) = Inr (E', Ep')"
    and e: "\<And>u v. E' u v = ?E0 u v + sum_list (map (\<lambda>i. group_term mm (prefactor self)
       (\<lambda>i. fst (kernels_at mm (decay_exponent self) (i div unitcell_x mm) (i mod unitcell_x mm)))
       ps i u v) ?gs)"
    by blast
  have shape: "\<forall>p \<in> set ps. in_shape (ny mm) (nx mm) p"
    using ps sitesD by (auto simp: in_shape_def)
  have u: "DipolarEnergy_update_multiple mm self ps = Inr (self\<lparr>E := E', E_perp := Ep'\<rparr>)"
    using shape r by (simp add: DipolarEnergy_update_multiple_def)
  show ?thesis
    by (rule exI [of _ "self\<lparr>E := E', E_perp := Ep'\<rparr>"]) (simp add: u e)
qed

lemma chain3_sites: "sites (chain3 c) = {(0, 0), (0, 1), (0, 2)}"
  by (auto simp: sites_def)

lemma chain3_K: "K_normal (chain3 c) (- 3) p = fst (kernels_at (chain3 c) (- 3) 0 0)"
  by (simp add: K_normal_def)

lemma chain3_occupied: "occupied (chain3 c) p"
  by (simp add: occupied_def cell_empty_def)

lemma switch_at_Nil: "switch_at [] mm = mm"
  by (simp add: switch_at_def)

lemma chain3_kernel_Suc:
  "fst (kernels_at (chain3 c) (- 3) 0 0) 0 (Suc 0) = Fin (1 / 10000000)"
  "fst (kernels_at (chain3 c) (- 3) 0 0) 0 (Suc (Suc 0)) = Fin 0"
  "fst (kernels_at (chain3 c) (- 3) 0 0) 0 (Suc (Suc (Suc 0))) = Fin (1 / 10000000)"
  using chain3_kernel [of c] by (simp_all add: numeral_2_eq_2 numeral_3_eq_3)

lemma chain3_local_energy:
  "local_energy (chain3 c) 1 (K_normal (chain3 c) (- 3)) (0, 0) = 9 / 80000000"
  "local_energy (chain3 c) 1 (K_normal (chain3 c) (- 3)) (0, 2) = 9 / 80000000"
  "local_energy (switch_at [(0, 0)] (chain3 c)) 1 (K_normal (chain3 c) (- 3)) (0, 2) = 7 / 80000000"
  using chain3_occupied [of c]
  by (simp_all add: local_energy_def field_def chain3_sites chain3_K window_def chain3_kernel
      chain3_kernel_Suc mmoment_def switch_at_m)


lemma chain3_initial:
  obtains d where "initialize (chain3 c) (DipolarParams 1 (- 3)) = Inr (Dipolar d)"
    "kernels_built (chain3 c) d" "prefactor d = 1" "decay_exponent d = - 3"
    "E d 0 2 = Fin (9 / 80000000)"
proof -
  from initialize_dipolar [OF chain3_mesh, of "- 3" c 1] obtain d where
    d: "initialize (chain3 c) (DipolarParams 1 (- 3)) = Inr (Dipolar d)"
    "kernels_built (chain3 c) d" "prefactor d = 1" "decay_exponent d = - 3"
    and e: "\<forall>p\<in>sites (chain3 c). E d (fst p) (snd p)
               = Fin (local_energy (chain3 c) 1 (K_normal (chain3 c) (- 3)) p)"
    by auto
  have "(0, 2) \<in> sites (chain3 c)" by (simp add: chain3_sites)
  from bspec [OF e this] have "E d 0 2 = Fin (9 / 80000000)"
    by (simp add: chain3_local_energy)
  with d show ?thesis by (rule that)
qed

lemma chain3_finite: "kernels_finite (chain3 c) (- 3)"
  by (rule kernels_finite_of [OF chain3_mesh]) simp_all

lemma chain3_batch_conv:
  "E_entry (run (chain3 0) (DipolarParams 1 (- 3)) [Multiple [(0, 0)]]) 0 2
     = Some (Fin (9 / 80000000))"
proof -
  obtain d where d: "initialize (chain3 0) (DipolarParams 1 (- 3)) = Inr (Dipolar d)"
    "kernels_built (chain3 0) d" "prefactor d = 1" "decay_exponent d = - 3"
    "E d 0 2 = Fin (9 / 80000000)"
    by (rule chain3_initial)
  let ?mm = "switch_at [(0, 0)] (chain3 0)"
  have kb: "kernels_built ?mm d" using d(2) by simp
  have sub: "set [(0, 0)] \<subseteq> sites ?mm" by (simp add: chain3_sites)
  from update_multiple_groups [OF kb sub] obtain d2 where
    u: "DipolarEnergy_update_multiple ?mm d [(0, 0)] = Inr d2"
    and e: "\<And>u v. E d2 u v = negate_at [(0, 0)] (E d) u v
           + sum_list (map (\<lambda>i. group_term ?mm (prefactor d)
               (\<lambda>i. fst (kernels_at ?mm (decay_exponent d) (i div unitcell_x ?mm) (i mod unitcell_x ?mm)))
               [(0, 0)] i u v)
             (filter (\<lambda>i. \<exists>p \<in> set [(0, 0)]. raveled ?mm p = i) [0..<unitcell_y ?mm * unitcell_x ?mm]))"
    by blast
  have conv: "convolvedkernel ?mm (fst (kernels_at (chain3 0) (- 3) 0 0)) [(0, 0)] 0 2 = 0"
    by (simp add: convolvedkernel_def convolve2d_same_def usefulkernel_shape_def usefulkernel_def
        switched_field_def pad_index_def numeral_3_eq_3 chain3_kernel chain3_kernel_Suc
        zero_xreal_def)
  have "E d2 0 2 = Fin (9 / 80000000)"
    unfolding e
    by (simp add: negate_at_def d raveled_def group_term_def cell_empty_def conv)
       (simp add: zero_xreal_def)
  then show ?thesis
    unfolding run_def d(1) using u by (simp add: E_entry_def)
qed

lemma chain3_batch_direct:
  "E_entry (run (chain3 1) (DipolarParams 1 (- 3)) [Multiple [(0, 0)]]) 0 2
     = Some (Fin (7 / 80000000))"
proof -
  obtain d where d: "initialize (chain3 1) (DipolarParams 1 (- 3)) = Inr (Dipolar d)"
    "kernels_built (chain3 1) d" "prefactor d = 1" "decay_exponent d = - 3"
    "E d 0 2 = Fin (9 / 80000000)"
    by (rule chain3_initial)
  let ?mm = "switch_at [(0, 0)] (chain3 1)"
  have kb: "kernels_built ?mm d" using d(2) by simp
  have kf: "kernels_finite ?mm (decay_exponent d)" using chain3_finite [of 1] d(4) by simp
  have sub: "set [(0, 0)] \<subseteq> sites ?mm" by (simp add: chain3_sites)
  have ex: "exact_batch ?mm [(0, 0)]" by (simp add: exact_batch_def)
  from update_multiple_closed [OF kb kf sub ex] obtain d2 where
    u: "DipolarEnergy_update_multiple ?mm d [(0, 0)] = Inr d2"
    and e: "\<forall>q\<in>sites ?mm. E d2 (fst q) (snd q) =
           (if q \<in> set [(0, 0)] then - E d (fst q) (snd q) else E d (fst q) (snd q))
           + Fin (2 * (prefactor d * (gm ?mm q
                        * batch_sum ?mm (K_normal ?mm (decay_exponent d)) [(0, 0)] q)))"
    by blast
  have "(0, 2) \<in> sites ?mm" by (simp add: chain3_sites)
  from bspec [OF e this] have "E d2 0 2 = Fin (7 / 80000000)"
    using chain3_occupied [of 1]
    by (simp add: d batch_sum_def gm_def mmoment_def switch_at_m coupling_def window_def
        chain3_K chain3_kernel)
  then show ?thesis
    unfolding run_def d(1) using u by (simp add: E_entry_def)
qed

lemma chain3_singles:
  "E_entry (run (chain3 0) (DipolarParams 1 (- 3)) [Single (0, 0)]) 0 2
     = Some (Fin (7 / 80000000))"
proof -
  obtain d where d: "initialize (chain3 0) (DipolarParams 1 (- 3)) = Inr (Dipolar d)"
    "kernels_built (chain3 0) d" "prefactor d = 1" "decay_exponent d = - 3"
    "E d 0 2 = Fin (9 / 80000000)"
    by (rule chain3_initial)
  let ?mm = "switch_at [(0, 0)] (chain3 0)"
  have kf: "kernels_finite (chain3 0) (decay_exponent d)" using chain3_finite [of 0] d(4) by simp
  have sub: "set [(0, 0)] \<subseteq> sites (chain3 0)" by (simp add: chain3_sites)
  have occ: "\<forall>p\<in>set [(0, 0)]. occupied (chain3 0) p" by (simp add: chain3_occupied)
  from singles_closed [OF d(2) kf sub _ occ] obtain d1 where
    s: "apply_switches (map Single [(0, 0)]) (chain3 0, Dipolar d) = Inr (?mm, Dipolar d1)"
    and e: "\<forall>q\<in>sites (chain3 0). E d1 (fst q) (snd q) =
           (if q \<in> set [(0, 0)] then - E d (fst q) (snd q) else E d (fst q) (snd q))
           + Fin (2 * (prefactor d * (gm ?mm q
                        * batch_sum ?mm (K_normal (chain3 0) (decay_exponent d)) [(0, 0)] q)))"
    by auto
  have "(0, 2) \<in> sites (chain3 0)" by (simp add: chain3_sites)
  from bspec [OF e this] have "E d1 0 2 = Fin (7 / 80000000)"
    using chain3_occupied [of 0]
    by (simp add: d batch_sum_def gm_def mmoment_def switch_at_m coupling_def window_def
        chain3_K chain3_kernel)
  moreover have "apply_switches [Single (0, 0)] (chain3 0, Dipolar d) = Inr (?mm, Dipolar d1)"
    using s by simp
  ultimately show ?thesis
    unfolding run_def d(1) by (simp add: E_entry_def)
qed


lemma with_cutoff_simps [simp]:
  "ny (with_cutoff c mm) = ny mm" "nx (with_cutoff c mm) = nx mm"
  "in_plane (with_cutoff c mm) = in_plane mm" "PBC (with_cutoff c mm) = PBC mm"
  "USE_PERP_ENERGY (with_cutoff c mm) = USE_PERP_ENERGY mm"
  "m (with_cutoff c mm) = m mm"
  "moment (with_cutoff c mm) = moment mm" "xx (with_cutoff c mm) = xx mm" "yy (with_cutoff c mm) = yy mm"
  "orientation (with_cutoff c mm) = orientation mm" "occupation (with_cutoff c mm) = occupation mm"
  "unitcell_y (with_cutoff c mm) = unitcell_y mm" "unitcell_x (with_cutoff c mm) = unitcell_x mm"
  "SIMULTANEOUS_SWITCHES_CONVOLUTION_OR_SUM_CUTOFF (with_cutoff c mm) = c"
  "REDUCED_KERNEL_SIZE (with_cutoff c mm) = REDUCED_KERNEL_SIZE mm"
  by (simp_all add: with_cutoff_def)

lemma distance_cutoff [simp]:
  "rrx (with_cutoff c mm) = rrx mm" "rry (with_cutoff c mm) = rry mm"
  by (simp_all add: rrx_def rry_def)

lemma rr_sq_cutoff [simp]: "rr_sq (with_cutoff c mm) = rr_sq mm"
  unfolding rr_sq_def distance_cutoff by (rule refl)

lemma rr_inv_cutoff [simp]: "rr_inv (with_cutoff c mm) = rr_inv mm"
  unfolding rr_inv_def by simp

lemma rr_inv3_cutoff [simp]: "rr_inv3 (with_cutoff c mm) = rr_inv3 mm"
  unfolding rr_inv3_def by simp

lemma mirrored_cutoff [simp]:
  "rinv3 (with_cutoff c mm) = rinv3 mm" "ux (with_cutoff c mm) = ux mm" "uy (with_cutoff c mm) = uy mm"
  unfolding rinv3_def ux_def uy_def by simp_all

lemma slice_cutoff [simp]:
  "unitcell_slice (with_cutoff c mm) = unitcell_slice mm"
  "toolargematrix (with_cutoff c mm) = toolargematrix mm"
  unfolding unitcell_slice_def toolargematrix_def by simp_all

lemma kernels_at_cutoff [simp]: "kernels_at (with_cutoff c mm) = kernels_at mm"
  unfolding kernels_at_def mirrored_cutoff slice_cutoff with_cutoff_simps by (rule refl)

lemma cell_empty_cutoff [simp]: "cell_empty (with_cutoff c mm) = cell_empty mm"
  by (simp add: fun_eq_iff cell_empty_def)

lemma geometry_cutoff [simp]:
  "sites (with_cutoff c mm) = sites mm"
  "occupied (with_cutoff c mm) = occupied mm"
  "window (with_cutoff c mm) = window mm"
  "coupling (with_cutoff c mm) = coupling mm"
  "K_normal (with_cutoff c mm) = K_normal mm"
  "K_perpself (with_cutoff c mm) = K_perpself mm"
  "K_perpother (with_cutoff c mm) = K_perpother mm"
  "kernels_built (with_cutoff c mm) = kernels_built mm"
  "kernels_finite (with_cutoff c mm) = kernels_finite mm"
  "gm (with_cutoff c mm) = gm mm"
  by (simp_all add: fun_eq_iff sites_def occupied_def window_def coupling_def K_normal_def
      K_perpself_def K_perpother_def kernels_built_def kernels_finite_def kernel_ok_def
      gm_def mmoment_def)

lemma batch_sum_cutoff [simp]: "batch_sum (with_cutoff c mm) = batch_sum mm"
  unfolding batch_sum_def geometry_cutoff by (rule refl)

text \<open>
  Claim C2, for finite kernels and the whole kernel without periodic wrapping. The lattice
  coordinates form a regular mesh grid (\<open>meshgrid_ok\<close>) and \<open>decay_exponent\<close> is negative,
  so that every kernel entry is finite and the centre entry is zero. Then, at any point of
  a run, for distinct magnets of unit moment inside a lattice without periodic boundaries
  whose \<^verbatim>\<open>REDUCED_KERNEL_SIZE\<close> does not cut the kernel, \<^verbatim>\<open>update_multiple\<close> succeeds and
  gives the same \<open>E\<close> and \<open>E_perp\<close> on the lattice for any two values \<open>c1\<close> and \<open>c2\<close> of
  the threshold, whichever branch they select. With a cut kernel the threshold changes
  the result (\<open>threshold_changes_result_counterexample\<close>).
\<close>

theorem convolution_equals_direct_sum:
  assumes r: "reachable (mm, Dipolar self)" and mesh: "meshgrid_ok mm"
    and de: "decay_exponent self < 0"
    and full: "\<not> PBC mm" "full_kernel mm"
    and ps: "\<forall>p\<in>set ps. in_shape (ny mm) (nx mm) p \<and> moment mm (fst p) (snd p) = 1"
    and d: "distinct ps"
  shows "\<exists>d1 d2. DipolarEnergy_update_multiple (with_cutoff c1 mm) self ps = Inr d1
     \<and> DipolarEnergy_update_multiple (with_cutoff c2 mm) self ps = Inr d2
     \<and> same_grid mm (E d1) (E d2) \<and> same_grid mm (E_perp d1) (E_perp d2)"
proof -
  note kb = reachable_dipolar [OF r]
  have kf: "kernels_finite mm (decay_exponent self)"
    using kernels_finite_of [OF mesh _ _ de] kb by (simp add: kernels_built_def)
  have sub: "set ps \<subseteq> sites mm"
    using ps by (auto simp: sites_def in_shape_def split: prod.splits)
  have closed: "\<exists>d'. DipolarEnergy_update_multiple (with_cutoff c mm) self ps = Inr d'
     \<and> (\<forall>q\<in>sites mm. E d' (fst q) (snd q) =
           (if q \<in> set ps then - E self (fst q) (snd q) else E self (fst q) (snd q))
           + Fin (2 * (prefactor self * (gm mm q
                        * batch_sum mm (K_normal mm (decay_exponent self)) ps q))))
     \<and> (if USE_PERP_ENERGY mm
         then \<forall>q\<in>sites mm. E_perp d' (fst q) (snd q) =
           (if q \<in> set ps then - E_perp self (fst q) (snd q) else E_perp self (fst q) (snd q))
           + Fin (2 * (prefactor self * (gm mm q
                        * batch_sum mm (K_perpother mm (decay_exponent self)) ps q)))
         else E_perp d' = E_perp self)" for c
  proof -
    have kb': "kernels_built (with_cutoff c mm) self" using kb by simp
    have kf': "kernels_finite (with_cutoff c mm) (decay_exponent self)" using kf by simp
    have sub': "set ps \<subseteq> sites (with_cutoff c mm)" using sub by simp
    have ex: "exact_batch (with_cutoff c mm) ps"
      using full ps d by (simp add: exact_batch_def full_kernel_def)
    from update_multiple_closed [OF kb' kf' sub' ex, unfolded geometry_cutoff batch_sum_cutoff with_cutoff_simps]
    show ?thesis by blast
  qed
  from closed [of c1] obtain d1 where
    u1: "DipolarEnergy_update_multiple (with_cutoff c1 mm) self ps = Inr d1"
    and e1: "\<forall>q\<in>sites mm. E d1 (fst q) (snd q) =
           (if q \<in> set ps then - E self (fst q) (snd q) else E self (fst q) (snd q))
           + Fin (2 * (prefactor self * (gm mm q
                        * batch_sum mm (K_normal mm (decay_exponent self)) ps q)))"
    and p1: "if USE_PERP_ENERGY mm
         then \<forall>q\<in>sites mm. E_perp d1 (fst q) (snd q) =
           (if q \<in> set ps then - E_perp self (fst q) (snd q) else E_perp self (fst q) (snd q))
           + Fin (2 * (prefactor self * (gm mm q
                        * batch_sum mm (K_perpother mm (decay_exponent self)) ps q)))
         else E_perp d1 = E_perp self"
    by blast
  from closed [of c2] obtain d2 where
    u2: "DipolarEnergy_update_multiple (with_cutoff c2 mm) self ps = Inr d2"
    and e2: "\<forall>q\<in>sites mm. E d2 (fst q) (snd q) =
           (if q \<in> set ps then - E self (fst q) (snd q) else E self (fst q) (snd q))
           + Fin (2 * (prefactor self * (gm mm q
                        * batch_sum mm (K_normal mm (decay_exponent self)) ps q)))"
    and p2: "if USE_PERP_ENERGY mm
         then \<forall>q\<in>sites mm. E_perp d2 (fst q) (snd q) =
           (if q \<in> set ps then - E_perp self (fst q) (snd q) else E_perp self (fst q) (snd q))
           + Fin (2 * (prefactor self * (gm mm q
                        * batch_sum mm (K_perpother mm (decay_exponent self)) ps q)))
         else E_perp d2 = E_perp self"
    by blast
  have g: "same_grid mm (E d1) (E d2)"
    unfolding same_grid_def
  proof (intro allI impI)
    fix y x assume "y < ny mm" "x < nx mm"
    then have "(y, x) \<in> sites mm" by (simp add: sites_def)
    from bspec [OF e1 this] bspec [OF e2 this] show "E d1 y x = E d2 y x" by simp
  qed
  have gp: "same_grid mm (E_perp d1) (E_perp d2)"
  proof (cases "USE_PERP_ENERGY mm")
    case True
    show ?thesis unfolding same_grid_def
    proof (intro allI impI)
      fix y x assume "y < ny mm" "x < nx mm"
      then have q: "(y, x) \<in> sites mm" by (simp add: sites_def)
      from p1 p2 True have "\<forall>q\<in>sites mm. E_perp d1 (fst q) (snd q) = E_perp d2 (fst q) (snd q)"
        by simp
      from bspec [OF this q] show "E_perp d1 y x = E_perp d2 y x" by simp
    qed
  next
    case False
    with p1 p2 show ?thesis by (simp add: same_grid_def)
  qed
  from u1 u2 g gp show ?thesis by blast
qed

theorem convolution_equals_direct_sum_witness:
  "\<exists>d d1 d2. initialize (square_oop 1 3) (DipolarParams 1 (- 3)) = Inr (Dipolar d)
     \<and> DipolarEnergy_update_multiple
          (with_cutoff 0 (switch_at [(0, 0), (0, 2)] (square_oop 1 3))) d [(0, 0), (0, 2)] = Inr d1
     \<and> DipolarEnergy_update_multiple
          (with_cutoff 2 (switch_at [(0, 0), (0, 2)] (square_oop 1 3))) d [(0, 0), (0, 2)] = Inr d2
     \<and> E d1 0 1 = E d2 0 1"
proof -
  let ?mm = "square_oop 1 3"
  let ?ps = "[(0, 0), (0, 2)] :: (nat \<times> nat) list"
  from initialize_dipolar [OF meshgrid_square_oop, of "- 3" 1 3 1] obtain d where
    i: "initialize ?mm (DipolarParams 1 (- 3)) = Inr (Dipolar d)"
    and de: "decay_exponent d = - 3"
    by auto
  have r: "reachable (switch_at ?ps ?mm, Dipolar d)"
    by (rule reach_switch) (rule reach_initialize [OF i])
  have mesh: "meshgrid_ok (switch_at ?ps ?mm)" by (simp add: meshgrid_square_oop)
  have neg: "decay_exponent d < 0" by (simp add: de)
  have full: "\<not> PBC (switch_at ?ps ?mm)" "full_kernel (switch_at ?ps ?mm)"
    by (simp_all add: full_kernel_def)
  have ps: "\<forall>p\<in>set ?ps. in_shape (ny (switch_at ?ps ?mm)) (nx (switch_at ?ps ?mm)) p
              \<and> moment (switch_at ?ps ?mm) (fst p) (snd p) = 1"
    by (simp add: in_shape_def)
  have dist: "distinct ?ps" by simp
  from convolution_equals_direct_sum [OF r mesh neg full ps dist, of 0 2] obtain d1 d2 where
    u: "DipolarEnergy_update_multiple (with_cutoff 0 (switch_at ?ps ?mm)) d ?ps = Inr d1"
      "DipolarEnergy_update_multiple (with_cutoff 2 (switch_at ?ps ?mm)) d ?ps = Inr d2"
    and g: "same_grid (switch_at ?ps ?mm) (E d1) (E d2)"
    by blast
  from g have "E d1 0 1 = E d2 0 1" by (simp add: same_grid_def)
  with i u show ?thesis by blast
qed

theorem threshold_changes_result_counterexample:
  "E_entry (run (chain3 0) (DipolarParams 1 (- 3)) [Multiple [(0, 0)]]) 0 2
     = Some (Fin (9 / 80000000))
   \<and> E_entry (run (chain3 1) (DipolarParams 1 (- 3)) [Multiple [(0, 0)]]) 0 2
     = Some (Fin (7 / 80000000))"
  by (intro conjI chain3_batch_conv chain3_batch_direct)

theorem batch_equals_singles_witness:
  "\<exists>d d1 d2. initialize (chain3 2) (DipolarParams 1 (- 3)) = Inr (Dipolar d)
     \<and> apply_switches [Single (0, 0), Single (0, 1)] (chain3 2, Dipolar d)
          = Inr (switch_at [(0, 0), (0, 1)] (chain3 2), Dipolar d1)
     \<and> apply_switch (Multiple [(0, 0), (0, 1)]) (chain3 2, Dipolar d)
          = Inr (switch_at [(0, 0), (0, 1)] (chain3 2), Dipolar d2)
     \<and> E d1 0 2 = E d2 0 2"
proof -
  let ?ps = "[(0, 0), (0, 1)] :: (nat \<times> nat) list"
  from initialize_dipolar [OF chain3_mesh, of "- 3" 2 1] obtain d where
    i: "initialize (chain3 2) (DipolarParams 1 (- 3)) = Inr (Dipolar d)"
    and de: "decay_exponent d = - 3"
    by auto
  have r: "reachable (chain3 2, Dipolar d)" by (rule reach_initialize [OF i])
  have neg: "decay_exponent d < 0" by (simp add: de)
  have ps: "\<forall>p\<in>set ?ps. in_shape (ny (chain3 2)) (nx (chain3 2)) p \<and> occupied (chain3 2) p"
    by (simp add: in_shape_def chain3_occupied)
  have dist: "distinct ?ps" by simp
  have ex: "exact_batch (chain3 2) ?ps" by (simp add: exact_batch_def)
  from batch_equals_singles [OF r chain3_mesh neg ps dist ex] obtain d1 d2 where
    u: "apply_switches (map Single ?ps) (chain3 2, Dipolar d)
          = Inr (switch_at ?ps (chain3 2), Dipolar d1)"
      "apply_switch (Multiple ?ps) (chain3 2, Dipolar d) = Inr (switch_at ?ps (chain3 2), Dipolar d2)"
    and g: "same_grid (chain3 2) (E d1) (E d2)"
    by blast
  from g have "E d1 0 2 = E d2 0 2" by (simp add: same_grid_def)
  moreover have "map Single ?ps = [Single (0, 0), Single (0, 1)]" by simp
  ultimately show ?thesis using i u by metis
qed

theorem batch_differs_from_singles_counterexample:
  "E_entry (run (chain3 0) (DipolarParams 1 (- 3)) [Multiple [(0, 0)]]) 0 2
     = Some (Fin (9 / 80000000))
   \<and> E_entry (run (chain3 0) (DipolarParams 1 (- 3)) [Single (0, 0)]) 0 2
     = Some (Fin (7 / 80000000))"
  by (intro conjI chain3_batch_conv chain3_singles)

lemma group_term_empty:
  assumes "cell_empty mm (i div unitcell_x mm) (i mod unitcell_x mm)"
  shows "group_term mm P k_of ps i u v = 0"
  using assms by (simp add: group_term_def)

text \<open>
  Claim C4, as the code handles it. At any point of a run of the dipolar contribution,
  for sites inside the lattice whose place in the unit cell holds no magnet (kernel index
  \<open>-1\<close>), \<^verbatim>\<open>update_single\<close> returns without raising and without changing the object, and
  \<^verbatim>\<open>update_multiple\<close> returns without raising, having negated \<open>E\<close> (and \<open>E_perp\<close>) at the
  listed sites and skipped their groups. Neither call fails
  (\<open>empty_cell_update_returns_counterexample\<close>).
\<close>

theorem update_on_empty_cell_is_silent:
  assumes r: "reachable (mm, Dipolar self)"
    and ps: "\<forall>p\<in>set ps. in_shape (ny mm) (nx mm) p \<and> \<not> occupied mm p"
  shows "(\<forall>p\<in>set ps. DipolarEnergy_update_single mm self p = Inr self)
     \<and> DipolarEnergy_update_multiple mm self ps
         = Inr (self\<lparr>E := negate_at ps (E self),
                     E_perp := (if USE_PERP_ENERGY mm then negate_at ps (E_perp self)
                                else E_perp self)\<rparr>)"
proof
  note kb = reachable_dipolar [OF r]
  note pos = kernels_built_pos [OF kb]
  show "\<forall>p\<in>set ps. DipolarEnergy_update_single mm self p = Inr self"
    using update_single_unoccupied [OF kb] ps by blast
  let ?gs = "filter (\<lambda>i. \<exists>p \<in> set ps. raveled mm p = i) [0..<unitcell_y mm * unitcell_x mm]"
  let ?E0 = "negate_at ps (E self)"
  let ?Ep0 = "if USE_PERP_ENERGY mm then negate_at ps (E_perp self) else E_perp self"
  have gs: "\<forall>i\<in>set ?gs. i < unitcell_y mm * unitcell_x mm" by simp
  have empty: "cell_empty mm (i div unitcell_x mm) (i mod unitcell_x mm)" if "i \<in> set ?gs" for i
  proof -
    from that obtain p where p: "p \<in> set ps" "raveled mm p = i" by auto
    from raveled_cell [OF pos(4) p(2)] ps p(1) show ?thesis by (simp add: occupied_def)
  qed
  from update_groups_sum [OF kb gs, of ps ?E0 ?Ep0] obtain E' Ep' where
    u: "update_groups mm self ps ?gs (?E0, ?Ep0) = Inr (E', Ep')"
    and e: "\<And>u v. E' u v = ?E0 u v + sum_list (map (\<lambda>i. group_term mm (prefactor self)
       (\<lambda>i. fst (kernels_at mm (decay_exponent self) (i div unitcell_x mm) (i mod unitcell_x mm)))
       ps i u v) ?gs)"
    and ep: "\<And>u v. Ep' u v = (if USE_PERP_ENERGY mm then ?Ep0 u v
       + sum_list (map (\<lambda>i. group_term mm (prefactor self)
       (\<lambda>i. snd (snd (kernels_at mm (decay_exponent self) (i div unitcell_x mm) (i mod unitcell_x mm))))
       ps i u v) ?gs) else ?Ep0 u v)"
    by blast
  have zero: "sum_list (map (\<lambda>i. group_term mm P k_of ps i u v) ?gs) = 0" for P k_of u v
  proof -
    have "map (\<lambda>i. group_term mm P k_of ps i u v) ?gs = map (\<lambda>i. 0) ?gs"
      by (rule map_cong [OF refl]) (rule group_term_empty [OF empty])
    then show ?thesis by (simp only: sum_list_0)
  qed
  have "E' = ?E0" by (intro ext) (simp add: e zero)
  moreover have "Ep' = ?Ep0" by (intro ext) (simp add: ep zero)
  moreover have "\<forall>p \<in> set ps. in_shape (ny mm) (nx mm) p" using ps by blast
  ultimately show "DipolarEnergy_update_multiple mm self ps
         = Inr (self\<lparr>E := ?E0, E_perp := ?Ep0\<rparr>)"
    using u by (simp add: DipolarEnergy_update_multiple_def)
qed

lemma half_filled_simps [simp]:
  "ny half_filled = 1" "nx half_filled = 2"
  "in_plane half_filled = False" "PBC half_filled = False"
  "USE_PERP_ENERGY half_filled = True"
  "m half_filled = (\<lambda>y x. if even x then 1 else 0)" "moment half_filled = (\<lambda>y x. 1)"
  "xx half_filled = (\<lambda>y x. real x)" "yy half_filled = (\<lambda>y x. real y)"
  "occupation half_filled = (\<lambda>y x. if even x then 1 else 0)"
  "unitcell_y half_filled = 1" "unitcell_x half_filled = 2"
  by (simp_all add: half_filled_def)

lemma half_filled_mesh: "meshgrid_ok half_filled"
  by (simp add: meshgrid_ok_def)

lemma half_filled_empty: "\<not> occupied half_filled (0, 1)"
  by (simp add: occupied_def cell_empty_def)

lemma half_filled_initial:
  obtains d where "initialize half_filled (DipolarParams 1 (- 3)) = Inr (Dipolar d)"
    "E d 0 1 = Fin 0"
proof -
  from initialize_dipolar [OF half_filled_mesh, of "- 3" 1] obtain d where
    d: "initialize half_filled (DipolarParams 1 (- 3)) = Inr (Dipolar d)"
    and e: "\<forall>p\<in>sites half_filled. E d (fst p) (snd p)
               = Fin (local_energy half_filled 1 (K_normal half_filled (- 3)) p)"
    by auto
  have "(0, 1) \<in> sites half_filled" by (simp add: sites_def)
  from bspec [OF e this] have "E d 0 1 = Fin 0"
    using half_filled_empty by (simp add: local_energy_def)
  with d show ?thesis by (rule that)
qed

theorem update_on_empty_cell_is_silent_witness:
  "\<exists>d. initialize half_filled (DipolarParams 1 (- 3)) = Inr (Dipolar d)
     \<and> DipolarEnergy_update_single half_filled d (0, 1) = Inr d
     \<and> DipolarEnergy_update_multiple half_filled d [(0, 1)]
         = Inr (d\<lparr>E := negate_at [(0, 1)] (E d), E_perp := negate_at [(0, 1)] (E_perp d)\<rparr>)"
proof -
  obtain d where d: "initialize half_filled (DipolarParams 1 (- 3)) = Inr (Dipolar d)"
    by (rule half_filled_initial)
  have r: "reachable (half_filled, Dipolar d)" by (rule reach_initialize [OF d])
  have ps: "\<forall>p\<in>set [(0, 1)]. in_shape (ny half_filled) (nx half_filled) p
               \<and> \<not> occupied half_filled p"
    using half_filled_empty by (simp add: in_shape_def)
  from update_on_empty_cell_is_silent [OF r ps] d show ?thesis by simp
qed

theorem empty_cell_update_returns_counterexample:
  "E_entry (run half_filled (DipolarParams 1 (- 3)) [Single (0, 1)]) 0 1 = Some (Fin 0)
   \<and> E_entry (run half_filled (DipolarParams 1 (- 3)) [Multiple [(0, 1)]]) 0 1 = Some (Fin 0)"
proof -
  obtain d where d: "initialize half_filled (DipolarParams 1 (- 3)) = Inr (Dipolar d)"
    "E d 0 1 = Fin 0"
    by (rule half_filled_initial)
  let ?mm1 = "switch_at [(0, 1)] half_filled"
  have r: "reachable (?mm1, Dipolar d)"
    by (rule reach_switch) (rule reach_initialize [OF d(1)])
  have ps: "\<forall>p\<in>set [(0, 1)]. in_shape (ny ?mm1) (nx ?mm1) p \<and> \<not> occupied ?mm1 p"
    using half_filled_empty by (simp add: in_shape_def)
  from update_on_empty_cell_is_silent [OF r ps]
  have s: "DipolarEnergy_update_single ?mm1 d (0, 1) = Inr d"
    and b: "DipolarEnergy_update_multiple ?mm1 d [(0, 1)]
         = Inr (d\<lparr>E := negate_at [(0, 1)] (E d), E_perp := negate_at [(0, 1)] (E_perp d)\<rparr>)"
    by simp_all
  show ?thesis
    unfolding run_def d(1) using s b d(2) by (simp add: E_entry_def negate_at_def)
qed

lemma Fin_mult_zero [simp]: "Fin a * 0 = 0" "0 * Fin a = 0"
  by (simp_all add: zero_xreal_def)

lemma zero_mult_zero [simp]: "(0::xreal) * 0 = 0"
  by (simp add: zero_xreal_def)

lemma case_option_zero [simp]: "(case x of None \<Rightarrow> (0::xreal) | Some u \<Rightarrow> 0) = 0"
  by (cases x) simp_all

lemma negate_at_zero [simp]: "negate_at ps (\<lambda>y x. 0) = (\<lambda>y x. 0)"
  by (simp add: negate_at_def fun_eq_iff)

lemma apply_PBC_zero: "apply_PBC h w (\<lambda>i j. 0) = (\<lambda>i j. 0)"
  by (simp add: apply_PBC_def fun_eq_iff)

lemma oop_perp_kernels:
  assumes "\<not> in_plane mm"
  shows "fst (snd (kernels_at mm de y x)) = (\<lambda>i j. 0)"
    and "snd (snd (kernels_at mm de y x)) = (\<lambda>i j. 0)"
  using assms by (simp_all add: kernels_at_def Let_def apply_PBC_zero)

lemma cell_term_zero: "cell_term mm (\<lambda>i j. 0) c i j = 0"
  by (simp add: cell_term_def reversed_def convolve2d_valid_def)

lemma switched_field_zero [simp]: "switched_field mm here u v * 0 = 0"
  by (simp add: switched_field_def)

lemma convolvedkernel_zero: "convolvedkernel mm (\<lambda>a b. 0) here u v = 0"
proof -
  have uk: "usefulkernel mm (\<lambda>a b. 0) = (\<lambda>a b. 0)"
    by (simp add: usefulkernel_def Let_def)
  have ds: "direct_sum mm (\<lambda>a b. 0) here (\<lambda>u v. 0) u v = 0"
    by (simp add: direct_sum_closed window_def)
  show ?thesis
    unfolding convolvedkernel_def uk using ds
    by (simp add: convolve2d_same_def cong: option.case_cong)
qed

lemma group_term_zero: "group_term mm P (\<lambda>i a b. 0) ps i u v = 0"
  by (simp add: group_term_def convolvedkernel_zero)

lemma sum_list_zeros: "sum_list (map (\<lambda>c. (0::xreal)) cs) = 0"
  by (induction cs) simp_all

lemma dipolar_update_perp_zero:
  assumes kb: "kernels_built mm d" and oop: "\<not> in_plane mm"
    and z: "E_perp d = (\<lambda>y x. 0)" and u: "DipolarEnergy_update mm d = Inr d'"
  shows "E_perp d' = (\<lambda>y x. 0)"
proof -
  have sub: "set (unitcell_cells mm) \<subseteq> {..<unitcell_y mm} \<times> {..<unitcell_x mm}"
    by (simp add: unitcell_cells_set)
  from update_cells_sum [OF kb sub, of "\<lambda>i j. 0" "\<lambda>i j. 0"] obtain te tep where
    r: "update_cells mm d (unitcell_cells mm) (\<lambda>i j. 0, \<lambda>i j. 0) = Inr (te, tep)"
    and ep: "\<And>i j. tep i j = (if USE_PERP_ENERGY mm then 0
       + sum_list (map (\<lambda>c. cell_term mm (fst (snd (kernels_at mm (decay_exponent d) (fst c) (snd c)))) c i j)
           (unitcell_cells mm)) else 0)"
    by blast
  have "tep i j = 0" for i j
    unfolding ep oop_perp_kernels(1) [OF oop] cell_term_zero sum_list_zeros by simp
  then have tep: "tep = (\<lambda>i j. 0)" by (simp add: fun_eq_iff)
  from u r have "d' = d\<lparr>E := (\<lambda>i j. Fin (prefactor d * moment mm i j) * te i j),
                    E_perp := (if USE_PERP_ENERGY mm
                               then (\<lambda>i j. Fin (prefactor d * moment mm i j) * tep i j)
                               else E_perp d)\<rparr>"
    by (simp add: DipolarEnergy_update_def)
  then show ?thesis by (simp add: tep z)
qed

lemma dipolar_update_single_perp_zero:
  assumes kb: "kernels_built mm d" and oop: "\<not> in_plane mm"
    and z: "E_perp d = (\<lambda>y x. 0)" and u: "DipolarEnergy_update_single mm d p = Inr d'"
  shows "E_perp d' = (\<lambda>y x. 0)"
proof (cases "occupied mm p")
  case False
  from update_single_unoccupied [OF kb False] u z show ?thesis by simp
next
  case True
  note l = occupied_lookup [OF kb True]
  have ko: "kernel_perpother_unitcell d
           ! nat (kernel_unitcell_indices d (fst p mod unitcell_y mm) (snd p mod unitcell_x mm))
           = (\<lambda>i j. 0)"
    unfolding l(7) K_perpother_def by (rule oop_perp_kernels(2) [OF oop])
  from u l(1) z show ?thesis
    unfolding DipolarEnergy_update_single_def Let_def ko
    by (auto split: if_splits)
qed

lemma dipolar_update_multiple_perp_zero:
  assumes kb: "kernels_built mm d" and oop: "\<not> in_plane mm"
    and z: "E_perp d = (\<lambda>y x. 0)" and u: "DipolarEnergy_update_multiple mm d ps = Inr d'"
  shows "E_perp d' = (\<lambda>y x. 0)"
proof -
  let ?gs = "filter (\<lambda>i. \<exists>p \<in> set ps. raveled mm p = i) [0..<unitcell_y mm * unitcell_x mm]"
  let ?E0 = "negate_at ps (E d)"
  let ?Ep0 = "if USE_PERP_ENERGY mm then negate_at ps (E_perp d) else E_perp d"
  have gs: "\<forall>i\<in>set ?gs. i < unitcell_y mm * unitcell_x mm" by simp
  have ep0: "?Ep0 = (\<lambda>y x. 0)" by (simp add: z)
  from update_groups_sum [OF kb gs, of ps ?E0 ?Ep0] obtain E' Ep' where
    r: "update_groups mm d ps ?gs (?E0, ?Ep0) = Inr (E', Ep')"
    and ep: "\<And>u v. Ep' u v = (if USE_PERP_ENERGY mm then ?Ep0 u v
       + sum_list (map (\<lambda>i. group_term mm (prefactor d)
       (\<lambda>i. snd (snd (kernels_at mm (decay_exponent d) (i div unitcell_x mm) (i mod unitcell_x mm))))
       ps i u v) ?gs) else ?Ep0 u v)"
    by blast
  have "Ep' u v = 0" for u v
    unfolding ep ep0 oop_perp_kernels(2) [OF oop] group_term_zero sum_list_zeros by simp
  then have "Ep' = (\<lambda>u v. 0)" by (simp add: fun_eq_iff)
  moreover from u r have "d' = d\<lparr>E := E', E_perp := Ep'\<rparr>"
    by (simp add: DipolarEnergy_update_multiple_def split: if_splits)
  ultimately show ?thesis by simp
qed

lemma zeeman_update_perp:
  assumes "E_factor_perp z = (\<lambda>y x. 0)" "E_perp z = (\<lambda>y x. 0)"
  shows "E_perp (ZeemanEnergy_update mm z) = (\<lambda>y x. 0)"
    and "E_factor_perp (ZeemanEnergy_update mm z) = (\<lambda>y x. 0)"
  using assms by (simp_all add: ZeemanEnergy_update_def zero_xreal_def)

lemma zeeman_set_field_perp:
  assumes "\<not> in_plane mm" "E_perp z = (\<lambda>y x. 0)"
  shows "E_perp (ZeemanEnergy_set_field mm z a b) = (\<lambda>y x. 0)"
    and "E_factor_perp (ZeemanEnergy_set_field mm z a b) = (\<lambda>y x. 0)"
  using assms
  by (simp_all add: ZeemanEnergy_set_field_def Let_def ZeemanEnergy_update_def zero_xreal_def
      split: option.splits)

lemma zeeman_initialize_perp:
  assumes "\<not> in_plane mm"
  shows "E_perp (ZeemanEnergy_initialize mm a b) = (\<lambda>y x. 0)"
    and "E_factor_perp (ZeemanEnergy_initialize mm a b) = (\<lambda>y x. 0)"
proof -
  let ?z0 = "\<lparr>E = (\<lambda>y x. 0), E_perp = (\<lambda>y x. 0), raw_magnitude = a, raw_angle = b,
              E_factor = (\<lambda>y x. 0), E_factor_perp = (\<lambda>y x. 0)\<rparr>"
  have z0: "E_perp ?z0 = (\<lambda>y x. 0)" by simp
  note s = zeeman_set_field_perp [OF assms z0, of "Some a" "Some b"]
  show "E_perp (ZeemanEnergy_initialize mm a b) = (\<lambda>y x. 0)"
    "E_factor_perp (ZeemanEnergy_initialize mm a b) = (\<lambda>y x. 0)"
    unfolding ZeemanEnergy_initialize_def Let_def
    by (rule zeeman_update_perp [OF s(2) s(1)])+
qed

lemma zeeman_update_single_perp:
  assumes "ZeemanEnergy_update_single mm z p = Inr z'"
    "E_factor_perp z = (\<lambda>y x. 0)" "E_perp z = (\<lambda>y x. 0)"
  shows "E_perp z' = (\<lambda>y x. 0)" "E_factor_perp z' = (\<lambda>y x. 0)"
  using assms by (auto simp: ZeemanEnergy_update_single_def split: if_splits)

lemma zeeman_update_multiple_perp:
  assumes "ZeemanEnergy_update_multiple mm z ps = Inr z'"
    "E_factor_perp z = (\<lambda>y x. 0)" "E_perp z = (\<lambda>y x. 0)"
  shows "E_perp z' = (\<lambda>y x. 0)" "E_factor_perp z' = (\<lambda>y x. 0)"
  using assms by (auto simp: ZeemanEnergy_update_multiple_def split: if_splits)

lemma exchange_update_perp:
  assumes "\<not> in_plane mm" "E_perp e = (\<lambda>y x. 0)"
  shows "E_perp (ExchangeEnergy_update mm e) = (\<lambda>y x. 0)"
  using assms by (simp add: ExchangeEnergy_update_def)

lemma reachable_perp_zero:
  assumes "reachable s"
  shows "\<not> in_plane (fst s) \<longrightarrow>
           E_perp_of (snd s) = (\<lambda>y x. 0)
           \<and> (case snd s of Zeeman z \<Rightarrow> E_factor_perp z = (\<lambda>y x. 0) | _ \<Rightarrow> True)"
  using assms
proof (induction rule: reachable.induct)
  case (reach_initialize mm params c)
  show ?case
  proof (cases params)
    case (ZeemanParams a b)
    with reach_initialize have "c = Zeeman (ZeemanEnergy_initialize mm a b)" by simp
    then show ?thesis by (simp add: zeeman_initialize_perp)
  next
    case (DipolarParams P de)
    with reach_initialize obtain d where c: "c = Dipolar d"
      and i: "DipolarEnergy_initialize mm P de = Inr d"
      by (auto simp: and_then_Inr)
    from i obtain d0 where i0: "DipolarEnergy__initialize mm (DipolarEnergy_new P de) = Inr d0"
      and u: "DipolarEnergy_update mm d0 = Inr d"
      by (auto simp: DipolarEnergy_initialize_def split: sum.splits)
    note f = initialize_kernels_built [OF i0]
    have z: "E_perp d0 = (\<lambda>y x. 0)" using f(5) by (simp add: DipolarEnergy_new_def)
    show ?thesis
      using dipolar_update_perp_zero [OF f(1) _ z u] by (simp add: c)
  next
    case (ExchangeParams j)
    with reach_initialize have "c = Exchange (ExchangeEnergy_initialize mm j)" by simp
    then show ?thesis
      by (simp add: ExchangeEnergy_initialize_def exchange_update_perp)
  qed
next
  case (reach_switch mm c ps)
  then show ?case by simp
next
  case (reach_update mm c c')
  show ?case
  proof (cases c)
    case (Zeeman z)
    with reach_update have "c' = Zeeman (ZeemanEnergy_update mm z)" by simp
    with reach_update.IH Zeeman show ?thesis by (simp add: zeeman_update_perp)
  next
    case (Dipolar d)
    with reach_update obtain d' where c': "c' = Dipolar d'" and u: "DipolarEnergy_update mm d = Inr d'"
      by (auto simp: and_then_Inr)
    have kb: "kernels_built mm d" using reachable_dipolar reach_update.hyps(1) Dipolar by simp
    show ?thesis
      using dipolar_update_perp_zero [OF kb _ _ u] reach_update.IH Dipolar by (simp add: c')
  next
    case (Exchange e)
    with reach_update have "c' = Exchange (ExchangeEnergy_update mm e)" by simp
    with reach_update.IH Exchange show ?thesis by (simp add: exchange_update_perp)
  qed
next
  case (reach_update_single mm c p c')
  show ?case
  proof (cases c)
    case (Zeeman z)
    with reach_update_single obtain z' where c': "c' = Zeeman z'"
      and u: "ZeemanEnergy_update_single mm z p = Inr z'"
      by (auto simp: and_then_Inr)
    show ?thesis
      using zeeman_update_single_perp [OF u] reach_update_single.IH Zeeman by (simp add: c')
  next
    case (Dipolar d)
    with reach_update_single obtain d' where c': "c' = Dipolar d'"
      and u: "DipolarEnergy_update_single mm d p = Inr d'"
      by (auto simp: and_then_Inr)
    have kb: "kernels_built mm d" using reachable_dipolar reach_update_single.hyps(1) Dipolar by simp
    show ?thesis
      using dipolar_update_single_perp_zero [OF kb _ _ u] reach_update_single.IH Dipolar
      by (simp add: c')
  next
    case (Exchange e)
    with reach_update_single have "c' = Exchange (ExchangeEnergy_update mm e)"
      by (simp add: ExchangeEnergy_update_single_def)
    with reach_update_single.IH Exchange show ?thesis by (simp add: exchange_update_perp)
  qed
next
  case (reach_update_multiple mm c ps c')
  show ?case
  proof (cases c)
    case (Zeeman z)
    with reach_update_multiple obtain z' where c': "c' = Zeeman z'"
      and u: "ZeemanEnergy_update_multiple mm z ps = Inr z'"
      by (auto simp: and_then_Inr)
    show ?thesis
      using zeeman_update_multiple_perp [OF u] reach_update_multiple.IH Zeeman by (simp add: c')
  next
    case (Dipolar d)
    with reach_update_multiple obtain d' where c': "c' = Dipolar d'"
      and u: "DipolarEnergy_update_multiple mm d ps = Inr d'"
      by (auto simp: and_then_Inr)
    have kb: "kernels_built mm d"
      using reachable_dipolar reach_update_multiple.hyps(1) Dipolar by simp
    show ?thesis
      using dipolar_update_multiple_perp_zero [OF kb _ _ u] reach_update_multiple.IH Dipolar
      by (simp add: c')
  next
    case (Exchange e)
    with reach_update_multiple have "c' = Exchange (ExchangeEnergy_update mm e)"
      by (simp add: ExchangeEnergy_update_multiple_def)
    with reach_update_multiple.IH Exchange show ?thesis by (simp add: exchange_update_perp)
  qed
next
  case (reach_set_field mm z new_magnitude new_angle)
  then show ?case by (simp add: zeeman_set_field_perp)
qed

text \<open>
  Claim C7. On an out-of-plane lattice every entry of \<open>E_perp\<close> is zero in every state
  that can be reached from \<^verbatim>\<open>initialize\<close> by switches and by calls of \<^verbatim>\<open>update\<close>,
  \<^verbatim>\<open>update_single\<close>, \<^verbatim>\<open>update_multiple\<close> (and \<^verbatim>\<open>set_field\<close>) in any order, for the
  Zeeman, the dipolar and the exchange contribution.
\<close>

theorem perpendicular_energy_zero_out_of_plane:
  assumes "reachable (mm, c)" and "\<not> in_plane mm"
  shows "E_perp_of c y x = 0"
  using reachable_perp_zero [OF assms(1)] assms(2) by simp

lemma apply_switches_reachable:
  assumes "reachable s0" "apply_switches sws s0 = Inr s"
  shows "reachable s \<and> in_plane (fst s) = in_plane (fst s0)"
  using assms
proof (induction sws arbitrary: s0)
  case Nil
  then show ?case by simp
next
  case (Cons sw sws)
  obtain mm c where s0: "s0 = (mm, c)" by (cases s0)
  from Cons.prems(2) obtain s1 where a: "apply_switch sw s0 = Inr s1"
    and rest: "apply_switches sws s1 = Inr s"
    by (auto simp: and_then_Inr)
  have "reachable s1 \<and> in_plane (fst s1) = in_plane mm"
  proof (cases sw)
    case (Single p)
    with a s0 obtain c' where u: "update_single (switch_at [p] mm) c p = Inr c'"
      and s1: "s1 = (switch_at [p] mm, c')"
      by (auto simp: and_then_Inr)
    have "reachable (switch_at [p] mm, c)" using Cons.prems(1) s0 by (auto intro: reach_switch)
    from reach_update_single [OF this u] show ?thesis by (simp add: s1)
  next
    case (Multiple ps)
    with a s0 obtain c' where u: "update_multiple (switch_at ps mm) c ps = Inr c'"
      and s1: "s1 = (switch_at ps mm, c')"
      by (auto simp: and_then_Inr)
    have "reachable (switch_at ps mm, c)" using Cons.prems(1) s0 by (auto intro: reach_switch)
    from reach_update_multiple [OF this u] show ?thesis by (simp add: s1)
  qed
  with Cons.IH [OF _ rest] s0 show ?case by simp
qed

lemma run_reachable:
  assumes "run mm params sws = Inr s"
  shows "reachable s" "in_plane (fst s) = in_plane mm"
proof -
  from assms obtain c where i: "initialize mm params = Inr c"
    and a: "apply_switches sws (mm, c) = Inr s"
    by (auto simp: run_def and_then_Inr)
  from apply_switches_reachable [OF reach_initialize [OF i] a]
  show "reachable s" "in_plane (fst s) = in_plane mm" by simp_all
qed

theorem perpendicular_energy_zero_out_of_plane_witness:
  "E_perp_entry (run (chain3 0) (DipolarParams 1 (- 3)) [Multiple [(0, 0)]]) 0 2 = Some 0"
proof -
  obtain s where r: "run (chain3 0) (DipolarParams 1 (- 3)) [Multiple [(0, 0)]] = Inr s"
    using chain3_batch_conv
    by (cases "run (chain3 0) (DipolarParams 1 (- 3)) [Multiple [(0, 0)]]")
       (simp_all add: E_entry_def)
  obtain mm c where s: "s = (mm, c)" by (cases s)
  from run_reachable [OF r] have "reachable (mm, c)" "\<not> in_plane mm" by (simp_all add: s)
  from perpendicular_energy_zero_out_of_plane [OF this, of 0 2] show ?thesis
    by (simp add: r s E_perp_entry_def)
qed













lemma dipole_value_zero [simp]:
  "dipole_value ox1 oy1 0 0 vx vy vr = 0" "dipole_value 0 0 ox2 oy2 vx vy vr = 0"
  by (simp_all add: dipole_value_def)


























lemma lattice_ok_switch [simp]: "lattice_ok (switch_at ps mm) = lattice_ok mm"
  by (simp add: lattice_ok_def)



lemma valid_switch_switch [simp]: "valid_switch (switch_at ps mm) params sw = valid_switch mm params sw"
  by (cases "(mm, params, sw)" rule: valid_switch.cases) simp_all






















lemma shifted_simps [simp]:
  "ny (shifted sy sx mm) = ny mm" "nx (shifted sy sx mm) = nx mm"
  "in_plane (shifted sy sx mm) = in_plane mm" "PBC (shifted sy sx mm) = PBC mm"
  "USE_PERP_ENERGY (shifted sy sx mm) = USE_PERP_ENERGY mm"
  "xx (shifted sy sx mm) = xx mm" "yy (shifted sy sx mm) = yy mm"
  "orientation (shifted sy sx mm) = orientation mm" "occupation (shifted sy sx mm) = occupation mm"
  "unitcell_y (shifted sy sx mm) = unitcell_y mm" "unitcell_x (shifted sy sx mm) = unitcell_x mm"
  by (simp_all add: shifted_def)

lemma distance_shifted [simp]:
  "rrx (shifted sy sx mm) = rrx mm" "rry (shifted sy sx mm) = rry mm"
  by (simp_all add: rrx_def rry_def)

lemma rr_sq_shifted [simp]: "rr_sq (shifted sy sx mm) = rr_sq mm"
  unfolding rr_sq_def distance_shifted by (rule refl)

lemma rr_inv_shifted [simp]: "rr_inv (shifted sy sx mm) = rr_inv mm"
  unfolding rr_inv_def by simp

lemma rr_inv3_shifted [simp]: "rr_inv3 (shifted sy sx mm) = rr_inv3 mm"
  unfolding rr_inv3_def by simp

lemma mirrored_shifted [simp]:
  "rinv3 (shifted sy sx mm) = rinv3 mm" "ux (shifted sy sx mm) = ux mm"
  "uy (shifted sy sx mm) = uy mm"
  unfolding rinv3_def ux_def uy_def by simp_all

lemma slice_shifted [simp]:
  "unitcell_slice (shifted sy sx mm) = unitcell_slice mm"
  "toolargematrix (shifted sy sx mm) = toolargematrix mm"
  unfolding unitcell_slice_def toolargematrix_def by simp_all

lemma kernels_at_shifted [simp]: "kernels_at (shifted sy sx mm) = kernels_at mm"
  unfolding kernels_at_def mirrored_shifted slice_shifted shifted_simps by (rule refl)

lemma cell_empty_shifted [simp]: "cell_empty (shifted sy sx mm) = cell_empty mm"
  by (simp add: fun_eq_iff cell_empty_def)










lemma ring_simps [simp]:
  "ny (ring w) = 1" "nx (ring w) = w"
  "in_plane (ring w) = True" "PBC (ring w) = True"
  "USE_PERP_ENERGY (ring w) = False"
  "m (ring w) = (\<lambda>y x. if x = 1 then - 1 else 1)" "moment (ring w) = (\<lambda>y x. 1)"
  "xx (ring w) = (\<lambda>y x. real x)" "yy (ring w) = (\<lambda>y x. real y)"
  "orientation (ring w) = (\<lambda>y x c. if even (x + c) then 1 else 0)"
  "unitcell_y (ring w) = 1" "unitcell_x (ring w) = 2"
  by (simp_all add: ring_def square_oop_def)

















end
